theory Spec2Isabelle
  imports Complex_Main
begin

section \<open>Values shared by the three components\<close>

text \<open>
  A Python string is the list of its code points, \<open>pystr\<close>; \<open>ascii\<close> writes an ASCII
  literal. The fixed Chinese fragments of the messages are written code point by code
  point. File contents and other byte strings are lists of numbers as well.

  The clock \<open>time.time()\<close> is an input of the model, a \<open>real\<close>: the arithmetic on
  timestamps is exact, the rounding of binary floating point is not modelled.
\<close>

type_synonym pystr = "nat list"

abbreviation (input) ascii :: "string \<Rightarrow> pystr" where
  "ascii s \<equiv> map of_char s"

text \<open>
  Exceptions, each with the text \<open>str(e)\<close> gives. \<open>OtherError\<close> stands for what the
  environment raises (aiohttp, the operating system), identified by its text;
  \<open>CancelledError\<close> is the cancellation of the running task, the one exception here that
  is not a subclass of \<open>Exception\<close>.
\<close>

datatype exn =
    ValueError pystr
  | AttributeError pystr
  | TypeError pystr
  | KeyError pystr
  | OtherError pystr
  | CancelledError pystr

fun str_exn :: "exn \<Rightarrow> pystr" where
  "str_exn (ValueError m) = m"
| "str_exn (AttributeError m) = m"
| "str_exn (TypeError m) = m"
| "str_exn (KeyError m) = m"
| "str_exn (OtherError m) = m"
| "str_exn (CancelledError m) = m"

text \<open>
  \<open>str(n)\<close> and the \<open>{n}\<close> of an f-string, for an integer \<open>n\<close>: the decimal digits, most
  significant first, after a minus sign for a negative number. Code point 48 is \<open>0\<close>.
\<close>

fun str_nat :: "nat \<Rightarrow> pystr" where
  "str_nat n = (if n < 10 then [48 + n] else str_nat (n div 10) @ [48 + n mod 10])"

declare str_nat.simps [simp del]

definition str_int :: "int \<Rightarrow> pystr" where
  "str_int i = (if i < 0 then 45 # str_nat (nat (- i)) else str_nat (nat i))"

section \<open>RateLimiter (core/rate_limiter.py)\<close>

record RateLimiter =
  max_requests :: int
  period_seconds :: int
  requests :: "pystr \<Rightarrow> real list option"

definition RateLimiter_init :: "int \<Rightarrow> int \<Rightarrow> RateLimiter" where
  "RateLimiter_init n p = \<lparr>max_requests = n, period_seconds = p, requests = Map.empty\<rparr>"

text \<open>\<open>min(xs)\<close>: raises \<open>ValueError\<close> on an empty list.\<close>

fun py_min :: "real list \<Rightarrow> exn + real" where
  "py_min [] = Inl (ValueError (ascii ''min() arg is an empty sequence''))"
| "py_min (x # xs) = Inr (fold min xs x)"

text \<open>\<open>int(x)\<close> of a float: truncation towards zero.\<close>

definition py_int :: "real \<Rightarrow> int" where
  "py_int x = (if 0 \<le> x then \<lfloor>x\<rfloor> else \<lceil>x\<rceil>)"

text \<open>
  The rejection message, the f-string
  \<open>"<requests too frequent, please wait> {int(remaining_time)} <seconds and try again>"\<close>:
  ten code points of Chinese text (U+8BF7 U+6C42 U+8FC7 U+4E8E U+9891 U+7E41 U+FF0C
  U+8BF7 U+7B49 U+5F85) and a space, the number, a space and four more (U+79D2 U+540E
  U+518D U+8BD5).
\<close>

definition wait_message :: "int \<Rightarrow> pystr" where
  "wait_message secs =
     [0x8BF7, 0x6C42, 0x8FC7, 0x4E8E, 0x9891, 0x7E41, 0xFF0C, 0x8BF7, 0x7B49, 0x5F85, 32]
     @ str_int secs @
     [32, 0x79D2, 0x540E, 0x518D, 0x8BD5]"

text \<open>
  The list stored for a key (empty for an unknown key), and the list comprehension of
  \<open>check_and_consume\<close> that keeps the timestamps younger than the period.
\<close>

definition stored :: "RateLimiter \<Rightarrow> pystr \<Rightarrow> real list" where
  "stored rl key = (case requests rl key of None \<Rightarrow> [] | Some ts \<Rightarrow> ts)"

definition prune :: "RateLimiter \<Rightarrow> pystr \<Rightarrow> real \<Rightarrow> real list" where
  "prune rl key current_time =
     filter (\<lambda>t. current_time - t < real_of_int (period_seconds rl)) (stored rl key)"

text \<open>
  \<open>check_and_consume\<close>, with the clock reading as an argument. It returns the limiter as
  the call leaves it and either the exception that escapes or the returned pair. The
  pruned list is stored before the length test, so it is stored on every path.
\<close>

definition check_and_consume ::
  "RateLimiter \<Rightarrow> pystr \<Rightarrow> real \<Rightarrow> RateLimiter \<times> (exn + bool \<times> pystr option)" where
  "check_and_consume rl key current_time =
     (let pruned = prune rl key current_time;
          rl1 = rl\<lparr>requests := (requests rl)(key \<mapsto> pruned)\<rparr>
      in if max_requests rl \<le> int (length pruned) then
           (case py_min pruned of
              Inl e \<Rightarrow> (rl1, Inl e)
            | Inr oldest \<Rightarrow>
                (let remaining_time = real_of_int (period_seconds rl) - (current_time - oldest)
                 in (rl1, Inr (False, Some (wait_message (py_int remaining_time))))))
         else (rl1\<lparr>requests := (requests rl1)(key \<mapsto> pruned @ [current_time])\<rparr>,
               Inr (True, None)))"

text \<open>
  A sequence of calls for one key at the given clock readings: the limiter after them,
  and whether every one of them was allowed.
\<close>

fun calls :: "RateLimiter \<Rightarrow> pystr \<Rightarrow> real list \<Rightarrow> RateLimiter" where
  "calls rl key [] = rl"
| "calls rl key (t # ts) = calls (fst (check_and_consume rl key t)) key ts"

fun all_allowed :: "RateLimiter \<Rightarrow> pystr \<Rightarrow> real list \<Rightarrow> bool" where
  "all_allowed rl key [] = True"
| "all_allowed rl key (t # ts) =
     (snd (check_and_consume rl key t) = Inr (True, None)
      \<and> all_allowed (fst (check_and_consume rl key t)) key ts)"

section \<open>Strings and configuration values\<close>

text \<open>
  \<open>str.isspace\<close>, the test \<open>str.strip()\<close> applies to each end: the ASCII controls 9 to 13
  and 28 to 31, the space, U+0085, U+00A0, U+1680, U+2000 to U+200A, U+2028, U+2029,
  U+202F, U+205F and U+3000.
\<close>

definition is_space :: "nat \<Rightarrow> bool" where
  "is_space c =
     ((9 \<le> c \<and> c \<le> 13) \<or> (28 \<le> c \<and> c \<le> 32) \<or> c = 0x85 \<or> c = 0xA0 \<or> c = 0x1680
      \<or> (0x2000 \<le> c \<and> c \<le> 0x200A) \<or> c = 0x2028 \<or> c = 0x2029 \<or> c = 0x202F
      \<or> c = 0x205F \<or> c = 0x3000)"

text \<open>\<open>s.strip()\<close>: whitespace removed from both ends.\<close>

definition strip :: "pystr \<Rightarrow> pystr" where
  "strip s = rev (dropWhile is_space (rev (dropWhile is_space s)))"

text \<open>
  What \<open>str.lower()\<close> and the class \<open>\d\<close> of \<open>re\<close> take from the Unicode database of the
  interpreter, which changes with its version: which code points are decimal digits, the
  lower-case mapping of each code point (a list: U+0130 maps to two code points), and
  the test whether a capital sigma, given the text before it (nearest code point first)
  and the text after it, stands at the end of a word.
\<close>

record unicode =
  decimal :: "nat \<Rightarrow> bool"
  to_lower :: "nat \<Rightarrow> pystr"
  final_sigma :: "pystr \<Rightarrow> pystr \<Rightarrow> bool"

text \<open>
  \<open>s.lower()\<close> as CPython computes it: every code point is replaced by its lower-case
  mapping, but a capital sigma (U+03A3) by the final small sigma (U+03C2) at the end of a
  word and by the small sigma (U+03C3) elsewhere. \<open>before\<close> is the text already passed,
  reversed.
\<close>

fun lower_from :: "unicode \<Rightarrow> pystr \<Rightarrow> pystr \<Rightarrow> pystr" where
  "lower_from U before [] = []"
| "lower_from U before (c # after) =
     (if c = 0x3A3 then [if final_sigma U before after then 0x3C2 else 0x3C3]
      else to_lower U c)
     @ lower_from U (c # before) after"

definition lower :: "unicode \<Rightarrow> pystr \<Rightarrow> pystr" where
  "lower U s = lower_from U [] s"

text \<open>
  Facts of the Unicode database that the properties below rest on (they hold for every
  code point of Unicode 14.0, the version of CPython 3.11): on ASCII only \<open>A\<close> to \<open>Z\<close>
  change, to \<open>a\<close> to \<open>z\<close>; the ASCII decimal digits are \<open>0\<close> to \<open>9\<close>; a decimal digit is
  its own lower case, is not whitespace and is none of the three sigmas; whitespace is
  its own lower case; and the lower case of a code point that is not whitespace is not
  empty and neither starts nor ends with whitespace.
\<close>

definition ascii_lower :: "nat \<Rightarrow> nat" where
  "ascii_lower c = (if 65 \<le> c \<and> c \<le> 90 then c + 32 else c)"

definition unicode_ok :: "unicode \<Rightarrow> bool" where
  "unicode_ok U =
     ((\<forall>c. c < 128 \<longrightarrow> to_lower U c = [ascii_lower c])
      \<and> (\<forall>c. c < 128 \<longrightarrow> decimal U c = (48 \<le> c \<and> c \<le> 57))
      \<and> (\<forall>c. decimal U c \<longrightarrow> to_lower U c = [c] \<and> \<not> is_space c
                \<and> c \<noteq> 0x3A3 \<and> c \<noteq> 0x3C2 \<and> c \<noteq> 0x3C3)
      \<and> (\<forall>c. is_space c \<longrightarrow> to_lower U c = [c])
      \<and> (\<forall>c. \<not> is_space c \<longrightarrow> to_lower U c \<noteq> [] \<and> \<not> is_space (hd (to_lower U c))
                \<and> \<not> is_space (last (to_lower U c))))"

text \<open>
  A small database for the examples. It has the ASCII and the full-width digits
  (U+FF10 to U+FF19), lowers ASCII, the Kelvin sign (U+212A, to \<open>k\<close>) and the capital I
  with dot (U+0130, to \<open>i\<close> and U+0307), and takes a sigma for final when a code point
  comes before it and none after it.
\<close>

definition sample_unicode :: unicode where
  "sample_unicode =
     \<lparr>decimal = (\<lambda>c. (48 \<le> c \<and> c \<le> 57) \<or> (0xFF10 \<le> c \<and> c \<le> 0xFF19)),
      to_lower = (\<lambda>c. if c = 0x212A then [107] else if c = 0x130 then [105, 0x307]
                       else [ascii_lower c]),
      final_sigma = (\<lambda>before after. before \<noteq> [] \<and> after = [])\<rparr>"

text \<open>
  The values a configuration mapping or a decoded JSON body holds. A \<open>dict\<close> is an
  association list with string keys; the first binding of a key is the one a lookup
  finds.
\<close>

datatype pyval =
    PNone
  | PBool bool
  | PInt int
  | PFloat real
  | PStr pystr
  | PList "pyval list"
  | PDict "(pystr \<times> pyval) list"

type_synonym pydict = "(pystr \<times> pyval) list"

fun type_name :: "pyval \<Rightarrow> pystr" where
  "type_name PNone = ascii ''NoneType''"
| "type_name (PBool b) = ascii ''bool''"
| "type_name (PInt i) = ascii ''int''"
| "type_name (PFloat r) = ascii ''float''"
| "type_name (PStr s) = ascii ''str''"
| "type_name (PList l) = ascii ''list''"
| "type_name (PDict d) = ascii ''dict''"

text \<open>Truth value of a value, as \<open>if v\<close>, \<open>not v\<close> and \<open>v or w\<close> take it.\<close>

fun truthy :: "pyval \<Rightarrow> bool" where
  "truthy PNone = False"
| "truthy (PBool b) = b"
| "truthy (PInt i) = (i \<noteq> 0)"
| "truthy (PFloat r) = (r \<noteq> 0)"
| "truthy (PStr s) = (s \<noteq> [])"
| "truthy (PList l) = (l \<noteq> [])"
| "truthy (PDict d) = (d \<noteq> [])"

text \<open>\<open>d.get(key, default)\<close> on a dict, and \<open>d.pop(key, None)\<close> for its effect on \<open>d\<close>.\<close>

definition dget :: "pydict \<Rightarrow> pystr \<Rightarrow> pyval \<Rightarrow> pyval" where
  "dget d key dflt = (case map_of d key of Some v \<Rightarrow> v | None \<Rightarrow> dflt)"

definition dpop :: "pydict \<Rightarrow> pystr \<Rightarrow> pydict" where
  "dpop d key = filter (\<lambda>kv. fst kv \<noteq> key) d"

text \<open>A text between single quotes, as the interpreter's messages show a name.\<close>

definition quoted :: "pystr \<Rightarrow> pystr" where
  "quoted s = [39] @ s @ [39]"

text \<open>
  The receiver of a \<open>.get\<close> call: of the values above only a dict has the method, on
  any other value the attribute lookup raises \<open>AttributeError\<close>.
\<close>

definition get_receiver :: "pyval \<Rightarrow> exn + pydict" where
  "get_receiver v =
     (case v of
        PDict d \<Rightarrow> Inr d
      | _ \<Rightarrow> Inl (AttributeError
                 (quoted (type_name v) @ ascii '' object has no attribute '' @ quoted (ascii ''get''))))"

section \<open>ConfigLoader (core/config.py)\<close>

text \<open>
  The attributes \<open>_load_config\<close> sets. Only \<open>api_keys\<close> is built by the loader; every
  other attribute is the configured value as it stands, of whatever type, or its default.
\<close>

record ConfigLoader =
  provider_id :: pyval
  api_type :: pyval
  model :: pyval
  api_keys :: "pystr list"
  endpoint_id :: pyval
  api_base :: pyval
  default_size :: pyval
  watermark :: pyval
  optimize_prompt_mode :: pyval
  resolution :: pyval
  aspect_ratio :: pyval
  persona_reference_image :: pyval
  enable_auto_outfit :: pyval
  max_attempts_per_key :: pyval
  enable_smart_retry :: pyval
  total_timeout :: pyval
  rate_limit_enabled :: pyval
  rate_limit_max_requests :: pyval
  rate_limit_period :: pyval

text \<open>
  The loop over \<open>provider_overrides\<close>: the first entry that is a dict whose
  \<open>__template_key\<close> equals \<open>'doubao'\<close>, copied and with that key removed; the empty dict
  when there is none.
\<close>

fun find_doubao :: "pyval list \<Rightarrow> pydict" where
  "find_doubao [] = []"
| "find_doubao (override # rest) =
     (case override of
        PDict d \<Rightarrow>
          if dget d (ascii ''__template_key'') PNone = PStr (ascii ''doubao'')
          then dpop d (ascii ''__template_key'')
          else find_doubao rest
      | _ \<Rightarrow> find_doubao rest)"

text \<open>The comprehension \<open>[k.strip() for k in api_keys if isinstance(k, str) and k.strip()]\<close>.\<close>

fun clean_keys :: "pyval list \<Rightarrow> pystr list" where
  "clean_keys [] = []"
| "clean_keys (k # ks) =
     (case k of
        PStr s \<Rightarrow> if strip s \<noteq> [] then strip s # clean_keys ks else clean_keys ks
      | _ \<Rightarrow> clean_keys ks)"

text \<open>
  The \<open>if\<close>/\<open>elif\<close> that fills \<open>self.api_keys\<close>, which starts as the empty list. A present
  \<open>api_keys\<close> field that is not a list (or is falsy) leaves the list empty, and the legacy
  \<open>api_key\<close> is then not consulted.
\<close>

definition load_api_keys :: "pydict \<Rightarrow> pystr list" where
  "load_api_keys doubao_settings =
     (if map_of doubao_settings (ascii ''api_keys'') \<noteq> None then
        (let v = dget doubao_settings (ascii ''api_keys'') PNone;
             api_keys = (if truthy v then v else PList [])
         in case api_keys of PList ks \<Rightarrow> clean_keys ks | _ \<Rightarrow> [])
      else
        (case map_of doubao_settings (ascii ''api_key'') of
           Some (PStr k) \<Rightarrow> (let key = strip k in if key \<noteq> [] then [key] else [])
         | _ \<Rightarrow> []))"

text \<open>The override the loader settles on, for the \<open>api_settings\<close> section it is given.\<close>

definition matched_override :: "pydict \<Rightarrow> pydict" where
  "matched_override api_settings =
     (case dget api_settings (ascii ''provider_overrides'') (PList []) of
        PList overrides \<Rightarrow> find_doubao overrides
      | _ \<Rightarrow> [])"

text \<open>
  \<open>ConfigLoader(config)\<close>: the constructor stores the mapping and runs \<open>_load_config\<close>.
  The five sections are read in the order of the source; each is fetched with \<open>{}\<close> as
  default and then used as the receiver of \<open>.get\<close>.
\<close>

definition load_config :: "pydict \<Rightarrow> exn + ConfigLoader" where
  "load_config config =
     (case get_receiver (dget config (ascii ''api_settings'') (PDict [])) of
        Inl e \<Rightarrow> Inl e
      | Inr api_settings \<Rightarrow>
     (let doubao_settings = matched_override api_settings;
          present = (doubao_settings \<noteq> [])
      in
     (case get_receiver (dget config (ascii ''image_generation_settings'') (PDict [])) of
        Inl e \<Rightarrow> Inl e
      | Inr image_generation_settings \<Rightarrow>
     (case get_receiver (dget config (ascii ''persona_settings'') (PDict [])) of
        Inl e \<Rightarrow> Inl e
      | Inr persona_settings \<Rightarrow>
     (case get_receiver (dget config (ascii ''retry_settings'') (PDict [])) of
        Inl e \<Rightarrow> Inl e
      | Inr retry_settings \<Rightarrow>
     (case get_receiver (dget config (ascii ''rate_limit_settings'') (PDict [])) of
        Inl e \<Rightarrow> Inl e
      | Inr rate_limit_settings \<Rightarrow>
        Inr \<lparr>provider_id = dget api_settings (ascii ''provider_id'') (PStr []),
             api_type = dget api_settings (ascii ''api_type'') (PStr (ascii ''doubao'')),
             model = dget api_settings (ascii ''model'') (PStr []),
             api_keys = load_api_keys doubao_settings,
             endpoint_id =
               (if present
                then dget doubao_settings (ascii ''endpoint_id'')
                       (PStr (ascii ''doubao-seedream-4-5-251128''))
                else PStr (ascii ''doubao-seedream-4-5-251128'')),
             api_base =
               (if present
                then dget doubao_settings (ascii ''api_base'')
                       (PStr (ascii ''https://ark.cn-beijing.volces.com''))
                else PStr (ascii ''https://ark.cn-beijing.volces.com'')),
             default_size =
               (if present then dget doubao_settings (ascii ''default_size'') (PStr (ascii ''2K''))
                else PStr (ascii ''2K'')),
             watermark =
               (if present then dget doubao_settings (ascii ''watermark'') (PBool False) else PBool False),
             optimize_prompt_mode =
               (if present
                then dget doubao_settings (ascii ''optimize_prompt_mode'') (PStr (ascii ''standard''))
                else PStr (ascii ''standard'')),
             resolution = dget image_generation_settings (ascii ''resolution'') (PStr (ascii ''1K'')),
             aspect_ratio = dget image_generation_settings (ascii ''aspect_ratio'') (PStr (ascii ''1:1'')),
             persona_reference_image =
               dget persona_settings (ascii ''persona_reference_image'') (PList []),
             enable_auto_outfit = dget persona_settings (ascii ''enable_auto_outfit'') (PBool True),
             max_attempts_per_key = dget retry_settings (ascii ''max_attempts_per_key'') (PInt 3),
             enable_smart_retry = dget retry_settings (ascii ''enable_smart_retry'') (PBool True),
             total_timeout = dget retry_settings (ascii ''total_timeout'') (PInt 120),
             rate_limit_enabled = dget rate_limit_settings (ascii ''enabled'') (PBool True),
             rate_limit_max_requests = dget rate_limit_settings (ascii ''max_requests'') (PInt 5),
             rate_limit_period = dget rate_limit_settings (ascii ''period_seconds'') (PInt 60)\<rparr>))))))"

text \<open>
  The five section names, and whether a configuration binds a section to a dict or
  does not bind it at all.
\<close>

definition section_names :: "pystr list" where
  "section_names = [ascii ''api_settings'', ascii ''image_generation_settings'',
                    ascii ''persona_settings'', ascii ''retry_settings'',
                    ascii ''rate_limit_settings'']"

definition section_ok :: "pydict \<Rightarrow> pystr \<Rightarrow> bool" where
  "section_ok config name =
     (case map_of config name of None \<Rightarrow> True | Some (PDict d) \<Rightarrow> True | Some _ \<Rightarrow> False)"

text \<open>The elements of a list that are strings, in order.\<close>

definition str_elements :: "pyval list \<Rightarrow> pystr list" where
  "str_elements vs = List.map_filter (\<lambda>v. case v of PStr s \<Rightarrow> Some s | _ \<Rightarrow> None) vs"

text \<open>The attributes with every default in place.\<close>

definition default_config :: ConfigLoader where
  "default_config =
     \<lparr>provider_id = PStr [], api_type = PStr (ascii ''doubao''), model = PStr [], api_keys = [],
      endpoint_id = PStr (ascii ''doubao-seedream-4-5-251128''),
      api_base = PStr (ascii ''https://ark.cn-beijing.volces.com''),
      default_size = PStr (ascii ''2K''), watermark = PBool False,
      optimize_prompt_mode = PStr (ascii ''standard''),
      resolution = PStr (ascii ''1K''), aspect_ratio = PStr (ascii ''1:1''),
      persona_reference_image = PList [], enable_auto_outfit = PBool True,
      max_attempts_per_key = PInt 3, enable_smart_retry = PBool True, total_timeout = PInt 120,
      rate_limit_enabled = PBool True, rate_limit_max_requests = PInt 5,
      rate_limit_period = PInt 60\<rparr>"

text \<open>
  The section a configuration binds to a name, empty when the name is not bound (or is
  bound to something that is no dict, on which the loader raises before it reads a field).
\<close>

definition section_of :: "pydict \<Rightarrow> pystr \<Rightarrow> pydict" where
  "section_of config name = (case map_of config name of Some (PDict d) \<Rightarrow> d | _ \<Rightarrow> [])"



section \<open>ApiClient (core/api_client.py)\<close>

subsection \<open>Resolution mapping\<close>

text \<open>
  \<open>re.match(r"^\d{3,5}x\d{3,5}$", s)\<close> on a \<open>str\<close>: \<open>\d\<close> is any decimal digit of the
  Unicode database. Neither \<open>x\<close> (code point 120) nor the end of the string is a digit,
  so each greedy group can only match a whole run of digits; \<open>$\<close> matches at the end of
  the string and before a line feed (code point 10) that ends it.
\<close>

definition match_size :: "unicode \<Rightarrow> pystr \<Rightarrow> bool" where
  "match_size U s =
     (let w = takeWhile (decimal U) s; rest = dropWhile (decimal U) s
      in 3 \<le> length w \<and> length w \<le> 5 \<and>
         (case rest of
            [] \<Rightarrow> False
          | c # after_x \<Rightarrow>
              c = 120 \<and>
              (let h = takeWhile (decimal U) after_x; tail = dropWhile (decimal U) after_x
               in 3 \<le> length h \<and> length h \<le> 5 \<and> (tail = [] \<or> tail = [10]))))"

text \<open>
  \<open>_map_resolution\<close>. The \<open>model\<close> argument (\<open>mdl\<close>) is lowered in the source and then
  unused. \<open>replace(' ', '')\<close> removes the space, code point 32.
\<close>

definition map_resolution :: "unicode \<Rightarrow> pystr \<Rightarrow> pystr \<Rightarrow> pystr" where
  "map_resolution U res mdl =
     (if res = [] then ascii ''2K''
      else
        (let raw = strip res
         in if raw = [] then ascii ''2K''
            else
              (let normalized = filter (\<lambda>c. c \<noteq> 32) (lower U raw)
               in if match_size U normalized then normalized
                  else if normalized = ascii ''1k'' \<or> normalized = ascii ''1024'' then ascii ''1K''
                  else if normalized = ascii ''2k'' \<or> normalized = ascii ''2048'' then ascii ''2K''
                  else if normalized = ascii ''4k'' \<or> normalized = ascii ''4096'' then ascii ''4K''
                  else ascii ''2K'')))"

text \<open>
  What the mapping looks at: the input stripped, lowered and freed of spaces.
\<close>

definition normal_form :: "unicode \<Rightarrow> pystr \<Rightarrow> pystr" where
  "normal_form U res = filter (\<lambda>c. c \<noteq> 32) (lower U (strip res))"

text \<open>A size token: 3 to 5 decimal digits, \<open>x\<close>, 3 to 5 decimal digits.\<close>

abbreviation (input) size_token :: "unicode \<Rightarrow> pystr \<Rightarrow> bool" where
  "size_token U s \<equiv>
     (\<exists>w h. s = w @ [120] @ h \<and> (\<forall>c\<in>set w. decimal U c) \<and> (\<forall>c\<in>set h. decimal U c)
            \<and> 3 \<le> length w \<and> length w \<le> 5 \<and> 3 \<le> length h \<and> length h \<le> 5)"

subsection \<open>The request and its environment\<close>

record ApiClient =
  client_api_keys :: "pystr list"
  client_api_base :: pystr
  client_endpoint_id :: pystr

text \<open>
  \<open>__init__\<close>: an empty base URL is replaced by the default. The lazily created
  \<open>aiohttp\<close> session is a handle on the connection pool and is not part of the model.
\<close>

definition ApiClient_init :: "pystr list \<Rightarrow> pystr \<Rightarrow> pystr \<Rightarrow> ApiClient" where
  "ApiClient_init keys base endpoint =
     \<lparr>client_api_keys = keys,
      client_api_base =
        (if base \<noteq> [] then base else ascii ''https://ark.cn-beijing.volces.com''),
      client_endpoint_id = endpoint\<rparr>"

record request =
  url :: pystr
  headers :: "(pystr \<times> pystr) list"
  payload :: pydict

text \<open>
  What the server answers: the status, and what \<open>response.text()\<close> and
  \<open>response.json()\<close> give, each of which may raise. \<open>session.post\<close> either raises or
  yields a response.
\<close>

datatype response = Response int "exn + pystr" "exn + pyval"

datatype post_outcome = PostRaises exn | PostReturns response

text \<open>
  Everything \<open>generate_image\<close> takes from outside: the index \<open>random.choice\<close> draws, the
  file system, the base64 codec, the clock in milliseconds, and the server.
\<close>

record env =
  chosen :: nat
  path_exists :: "pystr \<Rightarrow> bool"
  read_file :: "pystr \<Rightarrow> exn + pystr"
  b64encode :: "pystr \<Rightarrow> pystr"
  b64decode :: "pystr \<Rightarrow> exn + pystr"
  clock_ms :: int
  write_file :: "pystr \<Rightarrow> pystr \<Rightarrow> exn option"
  post :: "request \<Rightarrow> post_outcome"

text \<open>
  What a call leaves behind: the exception that escapes or the returned pair, the
  requests issued, and the files written.
\<close>

record outcome =
  result :: "exn + bool \<times> pyval"
  sent :: "request list"
  written :: "(pystr \<times> pystr) list"

text \<open>
  The fixed texts of the results: \<open>API\<close> and five code points for "key not configured";
  \<open>API\<close>, four code points for "request failed", a colon and a space; \<open>API\<close> and six
  code points for "returned format error"; five code points for "no image generated";
  \<open>API\<close>, four code points for "request exception", a colon and a space.
\<close>

definition no_keys_message :: pystr where
  "no_keys_message = ascii ''API'' @ [0x5BC6, 0x94A5, 0x672A, 0x914D, 0x7F6E]"

definition request_failed_prefix :: pystr where
  "request_failed_prefix = ascii ''API'' @ [0x8BF7, 0x6C42, 0x5931, 0x8D25] @ ascii '': ''"

definition format_error_message :: pystr where
  "format_error_message = ascii ''API'' @ [0x8FD4, 0x56DE, 0x683C, 0x5F0F, 0x9519, 0x8BEF]"

definition no_image_message :: pystr where
  "no_image_message = [0x672A, 0x751F, 0x6210, 0x56FE, 0x50CF]"

definition request_exception_prefix :: pystr where
  "request_exception_prefix = ascii ''API'' @ [0x8BF7, 0x6C42, 0x5F02, 0x5E38] @ ascii '': ''"

subsection \<open>Operations on values\<close>

definition starts_with :: "pystr \<Rightarrow> pystr \<Rightarrow> bool" where
  "starts_with p s = (take (length p) s = p)"

fun is_substring :: "pystr \<Rightarrow> pystr \<Rightarrow> bool" where
  "is_substring p [] = (p = [])"
| "is_substring p (c # cs) = (starts_with p (c # cs) \<or> is_substring p cs)"

text \<open>
  \<open>key in v\<close>, \<open>v[key]\<close> and \<open>for item in v\<close> for a string \<open>key\<close>, with the \<open>TypeError\<close>
  each raises on a value that does not support it. The wording of these messages is
  CPython's and differs between its versions; nothing below depends on it.
\<close>

definition py_contains :: "pyval \<Rightarrow> pystr \<Rightarrow> exn + bool" where
  "py_contains v key =
     (case v of
        PDict d \<Rightarrow> Inr (map_of d key \<noteq> None)
      | PList l \<Rightarrow> Inr (PStr key \<in> set l)
      | PStr s \<Rightarrow> Inr (is_substring key s)
      | _ \<Rightarrow> Inl (TypeError (ascii ''argument of type '' @ quoted (type_name v) @ (ascii '' is not iterable''))))"

definition py_getitem :: "pyval \<Rightarrow> pystr \<Rightarrow> exn + pyval" where
  "py_getitem v key =
     (case v of
        PDict d \<Rightarrow> (case map_of d key of Some x \<Rightarrow> Inr x | None \<Rightarrow> Inl (KeyError (quoted key)))
      | PList l \<Rightarrow> Inl (TypeError (ascii ''list indices must be integers or slices, not str''))
      | PStr s \<Rightarrow> Inl (TypeError (ascii ''string indices must be integers''))
      | _ \<Rightarrow> Inl (TypeError (quoted (type_name v) @ (ascii '' object is not subscriptable''))))"

definition py_iter :: "pyval \<Rightarrow> exn + pyval list" where
  "py_iter v =
     (case v of
        PList l \<Rightarrow> Inr l
      | PDict d \<Rightarrow> Inr (map (\<lambda>kv. PStr (fst kv)) d)
      | PStr s \<Rightarrow> Inr (map (\<lambda>c. PStr [c]) s)
      | _ \<Rightarrow> Inl (TypeError (quoted (type_name v) @ (ascii '' object is not iterable''))))"

text \<open>
  \<open>except Exception\<close> catches every exception of the model but a cancellation of the
  task, which is a \<open>BaseException\<close>.
\<close>

fun is_exception :: "exn \<Rightarrow> bool" where
  "is_exception (CancelledError m) = False"
| "is_exception e = True"

subsection \<open>\<open>_save_base64_image\<close>\<close>

text \<open>
  \<open>s.split(';base64,')[-1]\<close>: what follows the last separator, or all of \<open>s\<close> when it
  has none. \<open>acc\<close> holds the piece read so far, reversed.
\<close>

fun last_piece :: "pystr \<Rightarrow> pystr \<Rightarrow> pystr" where
  "last_piece acc [] = rev acc"
| "last_piece acc (c # cs) =
     (if starts_with (ascii '';base64,'') (c # cs) then last_piece [] (drop 8 (c # cs))
      else last_piece (c # acc) cs)"

text \<open>
  The whole body is inside \<open>try\<close>/\<open>except Exception\<close>: a value that is not a string (no
  \<open>startswith\<close>), a failed decoding and a failed write all give the empty path. It returns
  the path and the files it wrote.
\<close>

definition save_base64_image :: "env \<Rightarrow> pyval \<Rightarrow> pystr \<times> (pystr \<times> pystr) list" where
  "save_base64_image e b64_data =
     (case b64_data of
        PStr s \<Rightarrow>
          (let data = (if starts_with (ascii ''data:'') s then last_piece [] s else s)
           in case b64decode e data of
                Inl ex \<Rightarrow> ([], [])
              | Inr image_data \<Rightarrow>
                  (let image_path = (ascii ''selfie_'') @ str_int (clock_ms e) @ (ascii ''.png'')
                   in case write_file e image_path image_data of
                        Some ex \<Rightarrow> ([], [])
                      | None \<Rightarrow> (image_path, [(image_path, image_data)])))
      | _ \<Rightarrow> ([], []))"

subsection \<open>\<open>generate_image\<close>\<close>

text \<open>\<open>s.rstrip('/')\<close>; the slash is code point 47.\<close>

definition rstrip_slash :: "pystr \<Rightarrow> pystr" where
  "rstrip_slash s = rev (dropWhile (\<lambda>c. c = 47) (rev s))"

text \<open>
  \<open>os.path.splitext(path)[1]\<close> on POSIX paths: from the last dot of the last component
  on, unless only dots come before it in that component. The slash is code point 47,
  the dot 46.
\<close>

definition splitext_ext :: "pystr \<Rightarrow> pystr" where
  "splitext_ext path =
     (let base = rev (takeWhile (\<lambda>c. c \<noteq> 47) (rev path));
          name = dropWhile (\<lambda>c. c = 46) base
      in if 46 \<in> set name
         then 46 # rev (takeWhile (\<lambda>c. c \<noteq> 46) (rev name))
         else [])"

definition mime_type_of :: "unicode \<Rightarrow> pystr \<Rightarrow> pystr" where
  "mime_type_of U path =
     (let ext = lower U (splitext_ext path)
      in if ext = (ascii ''.jpg'') \<or> ext = (ascii ''.jpeg'') then (ascii ''image/jpeg'')
         else if ext = (ascii ''.webp'') then (ascii ''image/webp'')
         else if ext = (ascii ''.gif'') then (ascii ''image/gif'')
         else (ascii ''image/png''))"

text \<open>
  The \<open>image\<close> field of the payload: present when a reference path is given and exists.
  Opening and reading the file happens before the \<open>try\<close>, so its exception escapes.
\<close>

definition reference_field :: "unicode \<Rightarrow> env \<Rightarrow> pystr option \<Rightarrow> exn + pydict" where
  "reference_field U e reference_image =
     (case reference_image of
        None \<Rightarrow> Inr []
      | Some path \<Rightarrow>
          if path \<noteq> [] \<and> path_exists e path then
            (case read_file e path of
               Inl ex \<Rightarrow> Inl ex
             | Inr bytes \<Rightarrow>
                 Inr [((ascii ''image''), PStr (ascii ''data:'' @ mime_type_of U path @ (ascii '';base64,'')
                                        @ b64encode e bytes))])
          else Inr [])"

text \<open>Everything up to the \<open>try\<close>: the key drawn, the URL, the headers and the payload.\<close>

definition build_request ::
  "unicode \<Rightarrow> ApiClient \<Rightarrow> env \<Rightarrow> pystr \<Rightarrow> pystr option \<Rightarrow> pystr \<Rightarrow> exn + request" where
  "build_request U self e prompt reference_image res =
     (let api_key = client_api_keys self ! (chosen e mod length (client_api_keys self));
          api_base = rstrip_slash (client_api_base self);
          size = map_resolution U res (client_endpoint_id self);
          fields = [((ascii ''model''), PStr (client_endpoint_id self)), ((ascii ''prompt''), PStr prompt),
                    ((ascii ''response_format''), PStr (ascii ''url'')), ((ascii ''watermark''), PBool False)]
                   @ (if size \<noteq> [] then [((ascii ''size''), PStr size)] else [])
      in case reference_field U e reference_image of
           Inl ex \<Rightarrow> Inl ex
         | Inr image_field \<Rightarrow>
             Inr \<lparr>url = api_base @ (ascii ''/api/v3/images/generations''),
                  headers = [((ascii ''Content-Type''), (ascii ''application/json'')),
                             ((ascii ''Authorization''), (ascii ''Bearer '') @ api_key)],
                  payload = fields @ image_field\<rparr>)"

text \<open>
  The loop over \<open>data['data']\<close>. It returns the files written so far together with the
  exception raised or the list \<open>image_urls\<close>.
\<close>

fun collect_urls :: "env \<Rightarrow> pyval list \<Rightarrow> (pystr \<times> pystr) list \<times> (exn + pyval list)" where
  "collect_urls e [] = ([], Inr [])"
| "collect_urls e (item # items) =
     (case py_contains item (ascii ''url'') of
        Inl ex \<Rightarrow> ([], Inl ex)
      | Inr True \<Rightarrow>
          (case py_getitem item (ascii ''url'') of
             Inl ex \<Rightarrow> ([], Inl ex)
           | Inr u \<Rightarrow>
               (case collect_urls e items of
                  (ws, Inl ex) \<Rightarrow> (ws, Inl ex)
                | (ws, Inr us) \<Rightarrow> (ws, Inr (u # us))))
      | Inr False \<Rightarrow>
          (case py_contains item (ascii ''b64_json'') of
             Inl ex \<Rightarrow> ([], Inl ex)
           | Inr True \<Rightarrow>
               (case py_getitem item (ascii ''b64_json'') of
                  Inl ex \<Rightarrow> ([], Inl ex)
                | Inr b \<Rightarrow>
                    (case save_base64_image e b of
                       (image_path, w) \<Rightarrow>
                         (case collect_urls e items of
                            (ws, Inl ex) \<Rightarrow> (w @ ws, Inl ex)
                          | (ws, Inr us) \<Rightarrow>
                              (w @ ws,
                               Inr ((if image_path \<noteq> [] then [PStr image_path] else []) @ us)))))
           | Inr False \<Rightarrow> collect_urls e items))"

text \<open>The body of the \<open>async with\<close>: the status test and the reading of the response.\<close>

definition handle_response ::
  "env \<Rightarrow> response \<Rightarrow> (pystr \<times> pystr) list \<times> (exn + bool \<times> pyval)" where
  "handle_response e r =
     (case r of
        Response status text json \<Rightarrow>
          if status \<noteq> 200 then
            (case text of
               Inl ex \<Rightarrow> ([], Inl ex)
             | Inr error_text \<Rightarrow>
                 ([], Inr (False, PStr (request_failed_prefix @ str_int status @ (ascii '' - '')
                                        @ error_text))))
          else
            (case json of
               Inl ex \<Rightarrow> ([], Inl ex)
             | Inr data \<Rightarrow>
                 (case py_contains data (ascii ''data'') of
                    Inl ex \<Rightarrow> ([], Inl ex)
                  | Inr False \<Rightarrow> ([], Inr (False, PStr format_error_message))
                  | Inr True \<Rightarrow>
                      (case py_getitem data (ascii ''data'') of
                         Inl ex \<Rightarrow> ([], Inl ex)
                       | Inr d \<Rightarrow>
                           if \<not> truthy d then ([], Inr (False, PStr format_error_message))
                           else
                             (case py_iter d of
                                Inl ex \<Rightarrow> ([], Inl ex)
                              | Inr items \<Rightarrow>
                                  (case collect_urls e items of
                                     (ws, Inl ex) \<Rightarrow> (ws, Inl ex)
                                   | (ws, Inr []) \<Rightarrow> (ws, Inr (False, PStr no_image_message))
                                   | (ws, Inr (u # us)) \<Rightarrow> (ws, Inr (True, u))))))))"

text \<open>
  The \<open>try\<close> block with its handler: an \<open>Exception\<close> raised by \<open>session.post\<close> or while
  the response is handled becomes a failure result that carries \<open>str(e)\<close>.
\<close>

definition guarded_post ::
  "env \<Rightarrow> request \<Rightarrow> (pystr \<times> pystr) list \<times> (exn + bool \<times> pyval)" where
  "guarded_post e req =
     (case (case post e req of
              PostRaises ex \<Rightarrow> ([], Inl ex)
            | PostReturns r \<Rightarrow> handle_response e r) of
        (ws, Inl ex) \<Rightarrow>
          if is_exception ex then (ws, Inr (False, PStr (request_exception_prefix @ str_exn ex)))
          else (ws, Inl ex)
      | (ws, Inr v) \<Rightarrow> (ws, Inr v))"

definition generate_image ::
  "unicode \<Rightarrow> ApiClient \<Rightarrow> env \<Rightarrow> pystr \<Rightarrow> pystr option \<Rightarrow> pystr \<Rightarrow> outcome" where
  "generate_image U self e prompt reference_image res =
     (if client_api_keys self = [] then
        \<lparr>result = Inr (False, PStr no_keys_message), sent = [], written = []\<rparr>
      else
        (case build_request U self e prompt reference_image res of
           Inl ex \<Rightarrow> \<lparr>result = Inl ex, sent = [], written = []\<rparr>
         | Inr req \<Rightarrow>
             (case guarded_post e req of
                (ws, r) \<Rightarrow> \<lparr>result = r, sent = [req], written = ws\<rparr>)))"

section \<open>Properties of the rate limiter\<close>


lemma py_min_Cons:
  assumes "xs \<noteq> []"
  shows "py_min xs = Inr (Min (set xs))"
proof (cases xs)
  case Nil
  with assms show ?thesis by simp
next
  case (Cons a list)
  have "fold min list a = Min (set (a # list))"
    by (rule Min.set_eq_fold [symmetric])
  with Cons show ?thesis by simp
qed


lemma check_and_consume_allowed:
  "int (length (prune rl key now)) < max_requests rl \<Longrightarrow>
   check_and_consume rl key now =
     (rl\<lparr>requests := (requests rl)(key \<mapsto> prune rl key now @ [now])\<rparr>, Inr (True, None))"
  by (simp add: check_and_consume_def Let_def)

lemma check_and_consume_rejected:
  "max_requests rl \<le> int (length (prune rl key now)) \<Longrightarrow> prune rl key now \<noteq> [] \<Longrightarrow>
   check_and_consume rl key now =
     (rl\<lparr>requests := (requests rl)(key \<mapsto> prune rl key now)\<rparr>,
      Inr (False, Some (wait_message (py_int (real_of_int (period_seconds rl)
                                              - (now - Min (set (prune rl key now))))))))"
  by (simp add: check_and_consume_def Let_def py_min_Cons)

lemma check_and_consume_raises:
  "max_requests rl \<le> int (length (prune rl key now)) \<Longrightarrow> prune rl key now = [] \<Longrightarrow>
   check_and_consume rl key now =
     (rl\<lparr>requests := (requests rl)(key \<mapsto> [])\<rparr>,
      Inl (ValueError (ascii ''min() arg is an empty sequence'')))"
  by (simp add: check_and_consume_def Let_def)


lemma str_nat_decimal:
  "(\<forall>c\<in>set (str_nat n). 48 \<le> c \<and> c \<le> 57)
   \<and> foldl (\<lambda>a c. 10 * a + (int c - 48)) 0 (str_nat n) = int n"
proof (induction n rule: str_nat.induct)
  case (1 n)
  show ?case
  proof (cases "n < 10")
    case True
    then show ?thesis by (simp add: str_nat.simps [of n])
  next
    case False
    with "1" have ih: "(\<forall>c\<in>set (str_nat (n div 10)). 48 \<le> c \<and> c \<le> 57)"
      "foldl (\<lambda>a c. 10 * a + (int c - 48)) 0 (str_nat (n div 10)) = int (n div 10)"
      by simp_all
    have s: "str_nat n = str_nat (n div 10) @ [48 + n mod 10]"
      using False by (simp add: str_nat.simps [of n])
    have "10 * int (n div 10) + int (n mod 10) = int n"
      by (simp add: zdiv_int zmod_int)
    then show ?thesis using ih by (simp add: s)
  qed
qed

lemma str_int_decimal:
  assumes "0 \<le> n"
  shows "(\<forall>c\<in>set (str_int n). 48 \<le> c \<and> c \<le> 57)
         \<and> foldl (\<lambda>a c. 10 * a + (int c - 48)) 0 (str_int n) = n"
  using assms str_nat_decimal [of "nat n"] by (simp add: str_int_def)



text \<open>
  C10. Every call stores the pruned list for its key, with the clock reading appended
  exactly when the call returns \<open>(True, None)\<close>; a call that is not allowed stores the
  pruned list alone, a sublist of the old one, so it adds no timestamp. The lists of the
  other keys and the two parameters are unchanged, and the call is allowed exactly when
  the pruned list is shorter than \<open>max_requests\<close>.
\<close>

theorem rejection_appends_nothing:
  "requests (fst (check_and_consume rl key now)) =
     (requests rl)(key \<mapsto> prune rl key now @
        (if snd (check_and_consume rl key now) = Inr (True, None) then [now] else []))
   \<and> max_requests (fst (check_and_consume rl key now)) = max_requests rl
   \<and> period_seconds (fst (check_and_consume rl key now)) = period_seconds rl
   \<and> (snd (check_and_consume rl key now) = Inr (True, None))
       = (int (length (prune rl key now)) < max_requests rl)
   \<and> prune rl key now = filter (\<lambda>t. now - t < real_of_int (period_seconds rl)) (stored rl key)"
proof (cases "int (length (prune rl key now)) < max_requests rl")
  case True
  from check_and_consume_allowed [OF this] True show ?thesis
    by (simp add: prune_def)
next
  case False
  then have full: "max_requests rl \<le> int (length (prune rl key now))" by simp
  show ?thesis
  proof (cases "prune rl key now = []")
    case True
    from check_and_consume_raises [OF full True] False True show ?thesis
      by (simp add: prune_def)
  next
    case ne: False
    from check_and_consume_rejected [OF full ne] False show ?thesis
      by (simp add: prune_def)
  qed
qed

lemma stored_after_call:
  "stored (fst (check_and_consume rl key now)) key =
     prune rl key now @ (if int (length (prune rl key now)) < max_requests rl then [now] else [])"
proof (cases "int (length (prune rl key now)) < max_requests rl")
  case True
  from check_and_consume_allowed [OF this] True show ?thesis
    by (simp add: stored_def)
next
  case False
  then have full: "max_requests rl \<le> int (length (prune rl key now))" by simp
  show ?thesis
  proof (cases "prune rl key now = []")
    case True
    from check_and_consume_raises [OF full True] False True show ?thesis
      by (simp add: stored_def)
  next
    case ne: False
    from check_and_consume_rejected [OF full ne] False show ?thesis
      by (simp add: stored_def)
  qed
qed

lemma params_after_call:
  "max_requests (fst (check_and_consume rl key now)) = max_requests rl
   \<and> period_seconds (fst (check_and_consume rl key now)) = period_seconds rl"
  by (simp add: check_and_consume_def Let_def split: sum.splits)

lemma params_after_calls:
  "max_requests (calls rl key ts) = max_requests rl
   \<and> period_seconds (calls rl key ts) = period_seconds rl"
  by (induction ts arbitrary: rl) (simp_all add: params_after_call)

lemma allowed_iff:
  "(snd (check_and_consume rl key now) = Inr (True, None))
     = (int (length (prune rl key now)) < max_requests rl)"
  by (simp add: check_and_consume_def Let_def split: sum.splits)

lemma prune_stored:
  "prune rl key now = filter (\<lambda>x. now - x < real_of_int (period_seconds rl)) (stored rl key)"
  by (simp add: prune_def)

text \<open>Timestamps of allowed calls that stay inside the window are all kept.\<close>

lemma allowed_calls_kept:
  assumes "all_allowed rl key ts"
    and "\<forall>x\<in>set ts. x \<le> b \<and> b - x < real_of_int (period_seconds rl)"
    and "stored rl key = old @ pre"
    and "\<forall>x\<in>set pre. b - x < real_of_int (period_seconds rl)"
  shows "\<exists>old'. stored (calls rl key ts) key = old' @ pre @ ts"
  using assms
proof (induction ts arbitrary: rl old pre)
  case Nil
  then show ?case by auto
next
  case (Cons t ts)
  let ?rl1 = "fst (check_and_consume rl key t)"
  let ?P = "real_of_int (period_seconds rl)"
  from Cons.prems(1) have ok: "int (length (prune rl key t)) < max_requests rl"
    by (simp add: allowed_iff)
  from Cons.prems(2) have tb: "t \<le> b" "b - t < ?P" by simp_all
  have keep: "filter (\<lambda>x. t - x < ?P) pre = pre"
  proof -
    have "\<forall>x\<in>set pre. t - x < ?P"
    proof
      fix x assume "x \<in> set pre"
      with Cons.prems(4) have "b - x < ?P" by blast
      with tb(1) show "t - x < ?P" by simp
    qed
    then show ?thesis by (rule filter_True)
  qed
  have st: "stored ?rl1 key = filter (\<lambda>x. t - x < ?P) old @ (pre @ [t])"
    using ok keep by (simp add: stored_after_call prune_stored Cons.prems(3))
  have per: "period_seconds ?rl1 = period_seconds rl"
    by (simp add: params_after_call)
  have "\<exists>old'. stored (calls ?rl1 key ts) key = old' @ (pre @ [t]) @ ts"
  proof (rule Cons.IH [OF _ _ st])
    show "all_allowed ?rl1 key ts" using Cons.prems(1) by simp
    show "\<forall>x\<in>set ts. x \<le> b \<and> b - x < real_of_int (period_seconds ?rl1)"
      using Cons.prems(2) per by simp
    show "\<forall>x\<in>set (pre @ [t]). b - x < real_of_int (period_seconds ?rl1)"
      using Cons.prems(4) tb(2) per by auto
  qed
  then show ?case by simp
qed

lemma filter_conj_length:
  "length (filter (\<lambda>x. P x \<and> Q x) xs) \<le> length (filter Q xs)"
  by (induction xs) auto

text \<open>Under any test, the stored list never holds more than the old list and the calls.\<close>

lemma calls_filter_bound:
  "length (filter Q (stored (calls rl key ts) key)) \<le> length (filter Q (stored rl key @ ts))"
proof (induction ts arbitrary: rl)
  case Nil
  then show ?case by simp
next
  case (Cons t ts)
  let ?rl1 = "fst (check_and_consume rl key t)"
  have "length (filter Q (prune rl key t)) \<le> length (filter Q (stored rl key))"
    unfolding prune_stored filter_filter by (rule filter_conj_length)
  then have one: "length (filter Q (stored ?rl1 key)) \<le> length (filter Q (stored rl key @ [t]))"
    unfolding stored_after_call by auto
  have "length (filter Q (stored (calls ?rl1 key ts) key))
          \<le> length (filter Q (stored ?rl1 key @ ts))"
    by (rule Cons.IH)
  also have "\<dots> \<le> length (filter Q (stored rl key @ t # ts))"
    using one by (cases "Q t") simp_all
  finally show ?case by simp
qed

lemma fresh_calls_allowed:
  "int (length (stored rl key)) + int (length ts) \<le> max_requests rl \<Longrightarrow> all_allowed rl key ts"
proof (induction ts arbitrary: rl)
  case Nil
  then show ?case by simp
next
  case (Cons t ts)
  let ?rl1 = "fst (check_and_consume rl key t)"
  have le: "length (prune rl key t) \<le> length (stored rl key)"
    by (simp add: prune_stored)
  with Cons.prems have ok: "int (length (prune rl key t)) < max_requests rl" by simp
  have "int (length (stored ?rl1 key)) + int (length ts) \<le> max_requests ?rl1"
    using ok le Cons.prems by (simp add: stored_after_call params_after_call)
  then have "all_allowed ?rl1 key ts" by (rule Cons.IH)
  with ok show ?case by (simp add: allowed_iff)
qed

lemma within_window_rejected:
  assumes N: "1 \<le> max_requests rl" and len: "int (length ts) = max_requests rl"
    and ok: "all_allowed rl key ts"
    and win: "\<forall>x\<in>set ts. x \<le> t \<and> t - x < real_of_int (period_seconds rl)"
  shows "\<exists>m. snd (check_and_consume (calls rl key ts) key t) = Inr (False, Some m)"
proof -
  let ?rl' = "calls rl key ts"
  have "\<exists>old'. stored ?rl' key = old' @ [] @ ts"
    by (rule allowed_calls_kept [OF ok win, of "stored rl key"]) simp_all
  then obtain old' where st: "stored ?rl' key = old' @ ts" by auto
  have per: "period_seconds ?rl' = period_seconds rl" and mx: "max_requests ?rl' = max_requests rl"
    by (simp_all add: params_after_calls)
  have "filter (\<lambda>x. t - x < real_of_int (period_seconds rl)) ts = ts"
    using win by (intro filter_True) simp
  then have pr: "prune ?rl' key t = filter (\<lambda>x. t - x < real_of_int (period_seconds rl)) old' @ ts"
    by (simp add: prune_stored st per)
  then have full: "max_requests ?rl' \<le> int (length (prune ?rl' key t))"
    using len mx by simp
  have ne: "prune ?rl' key t \<noteq> []"
    using pr N len by auto
  from check_and_consume_rejected [OF full ne] show ?thesis by simp
qed

lemma after_window_allowed:
  assumes N: "1 \<le> max_requests rl" and len: "int (length ts) = max_requests rl"
    and old: "\<forall>x\<in>set (stored rl key). x \<le> hd ts"
    and late: "real_of_int (period_seconds rl) \<le> t - hd ts"
  shows "snd (check_and_consume (calls rl key ts) key t) = Inr (True, None)"
proof -
  let ?rl' = "calls rl key ts"
  let ?Q = "\<lambda>x. t - x < real_of_int (period_seconds rl)"
  from N len obtain t1 rest where ts: "ts = t1 # rest" by (cases ts) auto
  have per: "period_seconds ?rl' = period_seconds rl" and mx: "max_requests ?rl' = max_requests rl"
    by (simp_all add: params_after_calls)
  have "filter ?Q (stored rl key) = []"
    using old late by (auto simp: filter_empty_conv)
  moreover have "\<not> ?Q t1" using late ts by simp
  ultimately have "length (filter ?Q (stored rl key @ ts)) \<le> length rest"
    by (simp add: ts)
  with calls_filter_bound [of ?Q rl key ts]
  have "length (filter ?Q (stored ?rl' key)) \<le> length rest" by linarith
  moreover have "int (length rest) < max_requests rl"
    using len ts by simp
  ultimately have "int (length (filter ?Q (stored ?rl' key))) < max_requests rl"
    by linarith
  then have "int (length (prune ?rl' key t)) < max_requests ?rl'"
    unfolding prune_stored per mx .
  then show ?thesis by (simp only: allowed_iff)
qed

lemma stored_young_after_call:
  assumes "1 \<le> period_seconds rl"
  shows "\<forall>x\<in>set (stored (fst (check_and_consume rl key now)) key).
           now - x < real_of_int (period_seconds rl)"
  using assms by (auto simp: stored_after_call prune_stored)

lemma length_after_allowed:
  assumes "snd (check_and_consume rl key now) = Inr (True, None)"
  shows "int (length (stored (fst (check_and_consume rl key now)) key)) \<le> max_requests rl"
  using assms by (simp add: allowed_iff stored_after_call)

lemma length_after_call:
  assumes "int (length (stored rl key)) \<le> max_requests rl"
  shows "int (length (stored (fst (check_and_consume rl key now)) key)) \<le> max_requests rl"
proof -
  have "length (prune rl key now) \<le> length (stored rl key)"
    by (simp add: prune_stored)
  with assms show ?thesis by (simp add: stored_after_call)
qed

lemma length_after_calls:
  assumes "int (length (stored rl key)) \<le> max_requests rl"
  shows "int (length (stored (calls rl key ts) key)) \<le> max_requests rl"
  using assms
proof (induction ts arbitrary: rl)
  case Nil
  then show ?case by simp
next
  case (Cons t ts)
  let ?rl1 = "fst (check_and_consume rl key t)"
  have "int (length (stored ?rl1 key)) \<le> max_requests ?rl1"
    using length_after_call [OF Cons.prems] by (simp add: params_after_call)
  from Cons.IH [OF this] show ?case by (simp add: params_after_call)
qed

lemma sorted_between:
  assumes "sorted (ts::real list)" and "x \<in> set ts"
  shows "hd ts \<le> x \<and> x \<le> last ts"
  using assms
proof (induction ts)
  case Nil
  then show ?case by simp
next
  case (Cons a ts)
  then show ?case by (cases "ts = []") auto
qed

text \<open>
  C1, as amended. Let \<open>N = max_requests \<ge> 1\<close> and \<open>P = period_seconds\<close>, and let \<open>ts\<close> be
  the clock readings of \<open>N\<close> successive calls for one key, in non-decreasing order, with
  the next call at \<open>t\<close> not before them.
  \<^item> If the \<open>N\<close> calls were all allowed and \<open>t\<close> is less than \<open>P\<close> after the first of
    them, the call at \<open>t\<close> is rejected.
  \<^item> If no timestamp stored before the \<open>N\<close> calls is later than the first of them (time
    does not run backwards) and \<open>t\<close> is at least \<open>P\<close> after the first, the call at \<open>t\<close>
    is allowed.
  \<^item> Calls are all allowed as long as the stored list and the calls together do not
    exceed \<open>N\<close>: from a new limiter, the first \<open>N\<close> calls.
  \<^item> For \<open>P \<ge> 1\<close>, after a call at \<open>t\<close> every stored timestamp \<open>x\<close> of the key has
    \<open>t - x < P\<close>. (For \<open>P \<le> 0\<close> the timestamp an allowed call has just appended has
    age 0, which is not below \<open>P\<close>: the counterexample below.)
  \<^item> After an allowed call the stored list has at most \<open>N\<close> entries, and a list of at
    most \<open>N\<close> entries stays so under any sequence of calls.
\<close>

theorem sliding_window_limit:
  "(1 \<le> max_requests rl \<and> int (length ts) = max_requests rl \<and> sorted ts \<and> last ts \<le> t
      \<and> all_allowed rl key ts \<and> t - hd ts < real_of_int (period_seconds rl)
     \<longrightarrow> (\<exists>m. snd (check_and_consume (calls rl key ts) key t) = Inr (False, Some m)))
   \<and> (1 \<le> max_requests rl \<and> int (length ts) = max_requests rl
      \<and> (\<forall>x\<in>set (stored rl key). x \<le> hd ts) \<and> real_of_int (period_seconds rl) \<le> t - hd ts
     \<longrightarrow> snd (check_and_consume (calls rl key ts) key t) = Inr (True, None))
   \<and> (int (length (stored rl key)) + int (length ts) \<le> max_requests rl
     \<longrightarrow> all_allowed rl key ts)
   \<and> (1 \<le> period_seconds rl
     \<longrightarrow> (\<forall>x\<in>set (stored (fst (check_and_consume rl key t)) key).
            t - x < real_of_int (period_seconds rl)))
   \<and> (snd (check_and_consume rl key t) = Inr (True, None)
     \<longrightarrow> int (length (stored (fst (check_and_consume rl key t)) key)) \<le> max_requests rl)
   \<and> (int (length (stored rl key)) \<le> max_requests rl
     \<longrightarrow> int (length (stored (calls rl key ts) key)) \<le> max_requests rl)"
proof (intro conjI impI)
  assume h: "1 \<le> max_requests rl \<and> int (length ts) = max_requests rl \<and> sorted ts \<and> last ts \<le> t
      \<and> all_allowed rl key ts \<and> t - hd ts < real_of_int (period_seconds rl)"
  have "\<forall>x\<in>set ts. x \<le> t \<and> t - x < real_of_int (period_seconds rl)"
  proof
    fix x assume "x \<in> set ts"
    with h sorted_between [of ts x] have "hd ts \<le> x" "x \<le> last ts" by simp_all
    with h show "x \<le> t \<and> t - x < real_of_int (period_seconds rl)" by simp
  qed
  with h show "\<exists>m. snd (check_and_consume (calls rl key ts) key t) = Inr (False, Some m)"
    by (intro within_window_rejected) simp_all
next
  assume "1 \<le> max_requests rl \<and> int (length ts) = max_requests rl
      \<and> (\<forall>x\<in>set (stored rl key). x \<le> hd ts) \<and> real_of_int (period_seconds rl) \<le> t - hd ts"
  then show "snd (check_and_consume (calls rl key ts) key t) = Inr (True, None)"
    by (intro after_window_allowed) simp_all
next
  assume "int (length (stored rl key)) + int (length ts) \<le> max_requests rl"
  then show "all_allowed rl key ts" by (rule fresh_calls_allowed)
next
  assume "1 \<le> period_seconds rl"
  then show "\<forall>x\<in>set (stored (fst (check_and_consume rl key t)) key).
            t - x < real_of_int (period_seconds rl)"
    by (rule stored_young_after_call)
next
  assume "snd (check_and_consume rl key t) = Inr (True, None)"
  then show "int (length (stored (fst (check_and_consume rl key t)) key)) \<le> max_requests rl"
    by (rule length_after_allowed)
next
  assume "int (length (stored rl key)) \<le> max_requests rl"
  then show "int (length (stored (calls rl key ts) key)) \<le> max_requests rl"
    by (rule length_after_calls)
qed

theorem sliding_window_limit_witness:
  "all_allowed (RateLimiter_init 2 60) (ascii ''u1'') [0, 10]
   \<and> stored (calls (RateLimiter_init 2 60) (ascii ''u1'') [0, 10]) (ascii ''u1'') = [0, 10]
   \<and> (\<exists>m. snd (check_and_consume (calls (RateLimiter_init 2 60) (ascii ''u1'') [0, 10]) (ascii ''u1'') 59.5)
          = Inr (False, Some m))
   \<and> snd (check_and_consume (calls (RateLimiter_init 2 60) (ascii ''u1'') [0, 10]) (ascii ''u1'') 60)
          = Inr (True, None)
   \<and> stored (fst (check_and_consume (calls (RateLimiter_init 2 60) (ascii ''u1'') [0, 10]) (ascii ''u1'') 60)) (ascii ''u1'')
          = [10, 60]"
proof -
  let ?rl = "RateLimiter_init 2 60"
  have st: "stored ?rl (ascii ''u1'') = []" and mx: "max_requests ?rl = 2" and per: "period_seconds ?rl = 60"
    by (simp_all add: RateLimiter_init_def stored_def)
  have ok: "all_allowed ?rl (ascii ''u1'') [0, 10]"
    using sliding_window_limit [of ?rl "[0, 10]" 0 "ascii ''u1''"] st mx by simp
  have c: "calls ?rl (ascii ''u1'') [0, 10]
         = \<lparr>max_requests = 2, period_seconds = 60, requests = [ascii ''u1'' \<mapsto> [0, 10]]\<rparr>"
    by (simp add: check_and_consume_def RateLimiter_init_def prune_def stored_def Let_def)
  have rej: "\<exists>m. snd (check_and_consume (calls ?rl (ascii ''u1'') [0, 10]) (ascii ''u1'') 59.5) = Inr (False, Some m)"
    using sliding_window_limit [of ?rl "[0, 10]" "59.5" "ascii ''u1''"] ok mx per by simp
  have acc: "snd (check_and_consume (calls ?rl (ascii ''u1'') [0, 10]) (ascii ''u1'') 60) = Inr (True, None)"
    using sliding_window_limit [of ?rl "[0, 10]" 60 "ascii ''u1''"] st mx per by simp
  have fin: "stored (fst (check_and_consume (calls ?rl (ascii ''u1'') [0, 10]) (ascii ''u1'') 60)) (ascii ''u1'') = [10, 60]"
    unfolding c by (simp add: check_and_consume_def prune_def stored_def Let_def)
  show ?thesis using ok rej acc fin c by (simp add: stored_def)
qed

text \<open>
  C1 as stated, for every period: with \<open>P = 0\<close> the first call at clock reading 100 is
  allowed and stores \<open>[100]\<close>, whose entry has age \<open>100 - 100 = 0\<close>, not below \<open>P\<close>.
\<close>

theorem zero_period_entry_not_young:
  "snd (check_and_consume (RateLimiter_init 1 0) (ascii ''u1'') 100) = Inr (True, None)
   \<and> stored (fst (check_and_consume (RateLimiter_init 1 0) (ascii ''u1'') 100)) (ascii ''u1'') = [100]
   \<and> \<not> (100 - 100 < real_of_int (period_seconds (RateLimiter_init 1 0)))"
  by (simp add: check_and_consume_def RateLimiter_init_def prune_def stored_def Let_def)

text \<open>
  C3, at \<open>max_requests = 0\<close>: the first call for an unknown key reaches the rejection
  branch with an empty pruned list, and \<open>min\<close> of the empty list raises \<open>ValueError\<close>
  (its text is CPython's and varies with the version); no pair is returned, whatever the
  period, the key and the clock reading.
\<close>

theorem max_requests_zero_first_call_raises:
  "snd (check_and_consume (RateLimiter_init 0 p) key now)
     = Inl (ValueError (ascii ''min() arg is an empty sequence''))"
  by (simp add: check_and_consume_def RateLimiter_init_def prune_def stored_def Let_def)

text \<open>
  The other half of C3 holds: with \<open>max_requests\<close> at least 1, the first request for a
  key the limiter has not seen is allowed.
\<close>

lemma first_request_allowed:
  assumes "1 \<le> max_requests rl" and "requests rl key = None"
  shows "snd (check_and_consume rl key now) = Inr (True, None)"
  using assms by (simp add: allowed_iff prune_def stored_def)

section \<open>Properties of strings\<close>

lemma last_dropWhile: "dropWhile P xs \<noteq> [] \<Longrightarrow> last (dropWhile P xs) = last xs"
  by (induction xs) (auto split: if_splits)

lemma strip_ends:
  assumes "strip s \<noteq> []"
  shows "\<not> is_space (hd (strip s)) \<and> \<not> is_space (last (strip s))"
proof -
  let ?a = "dropWhile is_space s"
  let ?b = "dropWhile is_space (rev ?a)"
  from assms have b: "?b \<noteq> []" by (simp add: strip_def)
  have a: "?a \<noteq> []"
  proof
    assume eq: "?a = []"
    have "?b = []" unfolding eq by simp
    with b show False by blast
  qed
  have hb: "\<not> is_space (hd ?b)" using b by (rule hd_dropWhile)
  have ha: "\<not> is_space (hd ?a)" using a by (rule hd_dropWhile)
  have "last ?b = last (rev ?a)" using b by (rule last_dropWhile)
  also have "\<dots> = hd ?a" by (simp only: last_rev)
  finally have e: "last ?b = hd ?a" .
  have lb: "\<not> is_space (last ?b)" unfolding e by (rule ha)
  have "hd (rev ?b) = last ?b" by (simp only: hd_rev)
  moreover have "last (rev ?b) = hd ?b" by (simp only: last_rev)
  ultimately show ?thesis using hb lb unfolding strip_def by simp
qed

lemma dropWhile_id_hd: "xs \<noteq> [] \<Longrightarrow> \<not> P (hd xs) \<Longrightarrow> dropWhile P xs = xs"
  by (cases xs) simp_all

lemma strip_fixed:
  assumes "s \<noteq> []" and "\<not> is_space (hd s)" and "\<not> is_space (last s)"
  shows "strip s = s"
proof -
  have "dropWhile is_space s = s" using assms by (simp add: dropWhile_id_hd)
  moreover have "dropWhile is_space (rev s) = rev s"
    using assms by (intro dropWhile_id_hd) (simp_all add: hd_rev)
  ultimately show ?thesis by (simp add: strip_def)
qed

lemma strip_idem: "strip (strip s) = strip s"
proof (cases "strip s = []")
  case True
  have "strip [] = []" by (simp add: strip_def)
  with True show ?thesis by simp
next
  case False
  with strip_ends [OF False] show ?thesis by (intro strip_fixed) simp_all
qed

lemma strip_all_space: "\<forall>c\<in>set s. is_space c \<Longrightarrow> strip s = []"
  by (auto simp: strip_def dest: set_dropWhileD)

lemma strip_prepend:
  assumes "\<forall>c\<in>set u. is_space c"
  shows "strip (u @ s) = strip s"
  using assms by (simp add: strip_def dropWhile_append2)

lemma strip_append:
  assumes v: "\<forall>c\<in>set v. is_space c"
  shows "strip (s @ v) = strip s"
proof (cases "\<forall>c\<in>set s. is_space c")
  case True
  with v have "\<forall>c\<in>set (s @ v). is_space c" by auto
  then have "strip (s @ v) = []" by (rule strip_all_space)
  moreover from True have "strip s = []" by (rule strip_all_space)
  ultimately show ?thesis by simp
next
  case False
  then obtain x where x: "x \<in> set s" "\<not> is_space x" by blast
  then have "dropWhile is_space (s @ v) = dropWhile is_space s @ v"
    by (rule dropWhile_append1)
  then have "rev (dropWhile is_space (s @ v)) = rev v @ rev (dropWhile is_space s)"
    by simp
  moreover have "dropWhile is_space (rev v @ rev (dropWhile is_space s))
               = dropWhile is_space (rev (dropWhile is_space s))"
    using v by (intro dropWhile_append2) simp
  ultimately show ?thesis by (simp only: strip_def)
qed

lemma strip_padded:
  "\<forall>c\<in>set u. is_space c \<Longrightarrow> \<forall>c\<in>set v. is_space c \<Longrightarrow> strip (u @ s @ v) = strip s"
  by (simp add: strip_prepend strip_append)

lemma is_space_32: "is_space 32"
  by (simp add: is_space_def)

lemma dropWhile_space_filter:
  "dropWhile is_space (filter (\<lambda>c. c \<noteq> 32) s) = filter (\<lambda>c. c \<noteq> 32) (dropWhile is_space s)"
proof (induction s)
  case Nil
  then show ?case by simp
next
  case (Cons c s)
  show ?case
  proof (cases "c = 32")
    case True
    with Cons is_space_32 show ?thesis by simp
  next
    case False
    with Cons show ?thesis by simp
  qed
qed

lemma strip_filter:
  "strip (filter (\<lambda>c. c \<noteq> 32) s) = filter (\<lambda>c. c \<noteq> 32) (strip s)"
  unfolding strip_def by (simp only: dropWhile_space_filter rev_filter)

lemma dropWhile_keeps: "x \<in> set s \<Longrightarrow> \<not> P x \<Longrightarrow> x \<in> set (dropWhile P s)"
  by (induction s) auto

lemma strip_keeps:
  assumes "x \<in> set s" and "\<not> is_space x"
  shows "x \<in> set (strip s)"
proof -
  from assms have "x \<in> set (rev (dropWhile is_space s))" by (simp add: dropWhile_keeps)
  then have "x \<in> set (dropWhile is_space (rev (dropWhile is_space s)))"
    using assms(2) by (rule dropWhile_keeps)
  then show ?thesis by (simp add: strip_def)
qed

lemma set_strip: "x \<in> set (strip s) \<Longrightarrow> x \<in> set s"
  by (auto simp: strip_def dest!: set_dropWhileD)

lemma last_filter_kept:
  assumes "xs \<noteq> []" and "P (last xs)"
  shows "filter P xs \<noteq> [] \<and> last (filter P xs) = last xs"
proof -
  from assms(1) have "xs = butlast xs @ [last xs]" by simp
  then have "filter P xs = filter P (butlast xs) @ filter P [last xs]"
    by (metis filter_append)
  with assms(2) have "filter P xs = filter P (butlast xs) @ [last xs]" by simp
  then show ?thesis by simp
qed

lemma dropWhile_concat:
  assumes sp: "\<And>c. is_space c \<Longrightarrow> f c = [c]"
    and ns: "\<And>c. \<not> is_space c \<Longrightarrow> f c \<noteq> [] \<and> \<not> is_space (hd (f c))"
  shows "dropWhile is_space (concat (map f r)) = concat (map f (dropWhile is_space r))"
proof (induction r)
  case Nil
  then show ?case by simp
next
  case (Cons c r)
  show ?case
  proof (cases "is_space c")
    case True
    with sp [OF True] Cons show ?thesis by simp
  next
    case False
    from ns [OF False] obtain h t where f: "f c = h # t" and h: "\<not> is_space h"
      by (cases "f c") auto
    with False show ?thesis by simp
  qed
qed

lemma rev_concat_map: "rev (concat (map f xs)) = concat (map (\<lambda>c. rev (f c)) (rev xs))"
  by (induction xs) simp_all

lemma strip_concat:
  assumes sp: "\<And>c. is_space c \<Longrightarrow> f c = [c]"
    and ns: "\<And>c. \<not> is_space c
               \<Longrightarrow> f c \<noteq> [] \<and> \<not> is_space (hd (f c)) \<and> \<not> is_space (last (f c))"
  shows "strip (concat (map f r)) = concat (map f (strip r))"
proof -
  let ?g = "\<lambda>c. rev (f c)"
  have gsp: "\<And>c. is_space c \<Longrightarrow> ?g c = [c]" using sp by simp
  have gns: "\<And>c. \<not> is_space c \<Longrightarrow> ?g c \<noteq> [] \<and> \<not> is_space (hd (?g c))"
    using ns by (simp add: hd_rev)
  have fns: "\<And>c. \<not> is_space c \<Longrightarrow> f c \<noteq> [] \<and> \<not> is_space (hd (f c))"
    using ns by blast
  let ?r = "dropWhile is_space r"
  have "dropWhile is_space (concat (map f r)) = concat (map f ?r)"
    using sp fns by (rule dropWhile_concat)
  then have "strip (concat (map f r)) = rev (dropWhile is_space (rev (concat (map f ?r))))"
    by (simp only: strip_def)
  also have "rev (concat (map f ?r)) = concat (map ?g (rev ?r))" by (rule rev_concat_map)
  also have "dropWhile is_space (concat (map ?g (rev ?r)))
           = concat (map ?g (dropWhile is_space (rev ?r)))"
    using gsp gns by (rule dropWhile_concat)
  also have "rev (concat (map ?g (dropWhile is_space (rev ?r))))
           = concat (map f (rev (dropWhile is_space (rev ?r))))"
    by (simp add: rev_concat_map)
  finally show ?thesis by (simp only: strip_def)
qed

section \<open>Properties of the configuration loader\<close>

lemma clean_keys_ok: "k \<in> set (clean_keys ks) \<Longrightarrow> k \<noteq> [] \<and> strip k = k"
  by (induction ks rule: clean_keys.induct) (auto simp: strip_idem split: pyval.splits if_splits)

lemma load_api_keys_ok: "k \<in> set (load_api_keys d) \<Longrightarrow> k \<noteq> [] \<and> strip k = k"
  by (auto simp: load_api_keys_def Let_def strip_idem dest: clean_keys_ok
           split: if_splits option.splits pyval.splits)

lemma load_config_api_keys:
  assumes "load_config config = Inr cfg"
  shows "\<exists>a. dget config (ascii ''api_settings'') (PDict []) = PDict a
             \<and> api_keys cfg = load_api_keys (matched_override a)"
  using assms
  by (auto simp: load_config_def get_receiver_def Let_def split: sum.splits pyval.splits)

lemma get_receiver_Inr: "(\<exists>d. get_receiver v = Inr d) = (\<exists>d. v = PDict d)"
  by (cases v) (simp_all add: get_receiver_def)

lemma section_ok_receiver:
  "section_ok config name = (\<exists>d. get_receiver (dget config name (PDict [])) = Inr d)"
  by (auto simp: section_ok_def dget_def get_receiver_def split: option.splits pyval.splits)

lemma load_config_succeeds_iff:
  "(\<exists>cfg. load_config config = Inr cfg) = (\<forall>name\<in>set section_names. section_ok config name)"
  unfolding section_ok_receiver
  by (auto simp: load_config_def section_names_def Let_def split: sum.splits)

lemma clean_keys_eq:
  "clean_keys ks = filter (\<lambda>k. k \<noteq> []) (map strip (str_elements ks))"
  by (induction ks rule: clean_keys.induct)
     (simp_all add: str_elements_def List.map_filter_simps split: pyval.splits)

lemma get_receiver_section:
  "get_receiver (dget config name (PDict [])) = Inr d \<Longrightarrow> d = section_of config name"
  by (auto simp: get_receiver_def dget_def section_of_def split: option.splits pyval.splits)

lemma dget_if_present: "(if d \<noteq> [] then dget d key dflt else dflt) = dget d key dflt"
  by (cases d) (simp_all add: dget_def)

lemma load_config_sections:
  assumes "load_config config = Inr cfg"
  shows "cfg =
     \<lparr>provider_id = dget (section_of config (ascii ''api_settings'')) (ascii ''provider_id'') (PStr []),
      api_type = dget (section_of config (ascii ''api_settings'')) (ascii ''api_type'')
                   (PStr (ascii ''doubao'')),
      model = dget (section_of config (ascii ''api_settings'')) (ascii ''model'') (PStr []),
      api_keys = load_api_keys (matched_override (section_of config (ascii ''api_settings''))),
      endpoint_id = dget (matched_override (section_of config (ascii ''api_settings'')))
                      (ascii ''endpoint_id'') (PStr (ascii ''doubao-seedream-4-5-251128'')),
      api_base = dget (matched_override (section_of config (ascii ''api_settings'')))
                   (ascii ''api_base'') (PStr (ascii ''https://ark.cn-beijing.volces.com'')),
      default_size = dget (matched_override (section_of config (ascii ''api_settings'')))
                       (ascii ''default_size'') (PStr (ascii ''2K'')),
      watermark = dget (matched_override (section_of config (ascii ''api_settings'')))
                    (ascii ''watermark'') (PBool False),
      optimize_prompt_mode = dget (matched_override (section_of config (ascii ''api_settings'')))
                               (ascii ''optimize_prompt_mode'') (PStr (ascii ''standard'')),
      resolution = dget (section_of config (ascii ''image_generation_settings''))
                     (ascii ''resolution'') (PStr (ascii ''1K'')),
      aspect_ratio = dget (section_of config (ascii ''image_generation_settings''))
                       (ascii ''aspect_ratio'') (PStr (ascii ''1:1'')),
      persona_reference_image = dget (section_of config (ascii ''persona_settings''))
                                  (ascii ''persona_reference_image'') (PList []),
      enable_auto_outfit = dget (section_of config (ascii ''persona_settings''))
                             (ascii ''enable_auto_outfit'') (PBool True),
      max_attempts_per_key = dget (section_of config (ascii ''retry_settings''))
                               (ascii ''max_attempts_per_key'') (PInt 3),
      enable_smart_retry = dget (section_of config (ascii ''retry_settings''))
                             (ascii ''enable_smart_retry'') (PBool True),
      total_timeout = dget (section_of config (ascii ''retry_settings''))
                        (ascii ''total_timeout'') (PInt 120),
      rate_limit_enabled = dget (section_of config (ascii ''rate_limit_settings''))
                             (ascii ''enabled'') (PBool True),
      rate_limit_max_requests = dget (section_of config (ascii ''rate_limit_settings''))
                                  (ascii ''max_requests'') (PInt 5),
      rate_limit_period = dget (section_of config (ascii ''rate_limit_settings''))
                            (ascii ''period_seconds'') (PInt 60)\<rparr>"
proof -
  from assms obtain a i p r l where
    a: "get_receiver (dget config (ascii ''api_settings'') (PDict [])) = Inr a" and
    i: "get_receiver (dget config (ascii ''image_generation_settings'') (PDict [])) = Inr i" and
    p: "get_receiver (dget config (ascii ''persona_settings'') (PDict [])) = Inr p" and
    r: "get_receiver (dget config (ascii ''retry_settings'') (PDict [])) = Inr r" and
    l: "get_receiver (dget config (ascii ''rate_limit_settings'') (PDict [])) = Inr l"
    unfolding load_config_def Let_def by (simp split: sum.splits)
  note eqs = get_receiver_section [OF a] get_receiver_section [OF i] get_receiver_section [OF p]
             get_receiver_section [OF r] get_receiver_section [OF l]
  from assms show ?thesis
    unfolding load_config_def Let_def a i p r l sum.case dget_if_present
    unfolding eqs by simp
qed



lemma load_config_keys_of_section:
  assumes "load_config config = Inr cfg"
  shows "api_keys cfg = load_api_keys (matched_override (section_of config (ascii ''api_settings'')))"
  by (subst load_config_sections [OF assms]) simp

lemma load_api_keys_list:
  assumes "map_of d (ascii ''api_keys'') = Some (PList ks)"
  shows "load_api_keys d = filter (\<lambda>k. k \<noteq> []) (map strip (str_elements ks))"
proof -
  from assms have "load_api_keys d = clean_keys ks"
    by (cases ks) (simp_all add: load_api_keys_def dget_def)
  then show ?thesis by (simp add: clean_keys_eq)
qed

text \<open>
  C6. For a configuration that loads, with \<open>a\<close> its \<open>api_settings\<close> section and
  \<open>matched_override a\<close> the provider override the loader settles on:
  \<^item> when the override has a list under \<open>api_keys\<close>, the result is that list's strings,
    each trimmed, the empty ones dropped;
  \<^item> when it has no \<open>api_keys\<close> and a string under \<open>api_key\<close>, the result is the trimmed
    string alone, or the empty list when nothing is left of it;
  \<^item> when it has neither, the result is the empty list.
  The witness runs the loader on the examples of the claim.
\<close>

theorem api_key_normalization:
  assumes "load_config config = Inr cfg"
    and "dget config (ascii ''api_settings'') (PDict []) = PDict a"
  shows "(\<forall>ks. map_of (matched_override a) (ascii ''api_keys'') = Some (PList ks) \<longrightarrow>
            api_keys cfg = filter (\<lambda>k. k \<noteq> []) (map strip (str_elements ks)))
       \<and> (\<forall>k. map_of (matched_override a) (ascii ''api_keys'') = None
              \<and> map_of (matched_override a) (ascii ''api_key'') = Some (PStr k) \<longrightarrow>
            api_keys cfg = (if strip k = [] then [] else [strip k]))
       \<and> (map_of (matched_override a) (ascii ''api_keys'') = None
              \<and> map_of (matched_override a) (ascii ''api_key'') = None \<longrightarrow>
            api_keys cfg = [])"
proof -
  from load_config_api_keys [OF assms(1)] assms(2)
  have k: "api_keys cfg = load_api_keys (matched_override a)" by auto
  show ?thesis
  proof (intro conjI allI impI)
    fix ks
    assume "map_of (matched_override a) (ascii ''api_keys'') = Some (PList ks)"
    then have "load_api_keys (matched_override a) = clean_keys ks"
      by (cases ks) (simp_all add: load_api_keys_def dget_def)
    with k show "api_keys cfg = filter (\<lambda>k. k \<noteq> []) (map strip (str_elements ks))"
      by (simp add: clean_keys_eq)
  next
    fix k'
    assume "map_of (matched_override a) (ascii ''api_keys'') = None
              \<and> map_of (matched_override a) (ascii ''api_key'') = Some (PStr k')"
    with k show "api_keys cfg = (if strip k' = [] then [] else [strip k'])"
      by (simp add: load_api_keys_def Let_def)
  next
    assume "map_of (matched_override a) (ascii ''api_keys'') = None
              \<and> map_of (matched_override a) (ascii ''api_key'') = None"
    with k show "api_keys cfg = []"
      by (simp add: load_api_keys_def)
  qed
qed

lemma load_config_of_api_settings:
  "\<exists>cfg. load_config [(ascii ''api_settings'', PDict a)] = Inr cfg"
  by (simp add: load_config_succeeds_iff section_names_def section_ok_def)

theorem api_key_normalization_witness:
  "(\<exists>cfg. load_config [(ascii ''api_settings'', PDict [(ascii ''provider_overrides'', PList
        [PDict [(ascii ''__template_key'', PStr (ascii ''doubao'')),
                (ascii ''api_keys'', PList [PStr (ascii '' a ''), PStr [], PStr (ascii ''b'')])]])])] = Inr cfg
      \<and> api_keys cfg = [ascii ''a'', ascii ''b''])
   \<and> (\<exists>cfg. load_config [(ascii ''api_settings'', PDict [(ascii ''provider_overrides'', PList
        [PDict [(ascii ''__template_key'', PStr (ascii ''doubao'')),
                (ascii ''api_keys'', PList [PStr [0x3000, 97, 0x3000], PInt 7, PStr [0xA0]])]])])] = Inr cfg
      \<and> api_keys cfg = [ascii ''a''])
   \<and> (\<exists>cfg. load_config [(ascii ''api_settings'', PDict [(ascii ''provider_overrides'', PList
        [PDict [(ascii ''__template_key'', PStr (ascii ''doubao'')), (ascii ''api_key'', PStr (ascii '' x ''))]])])] = Inr cfg
      \<and> api_keys cfg = [ascii ''x''])
   \<and> (\<exists>cfg. load_config [(ascii ''api_settings'', PDict [(ascii ''provider_overrides'', PList
        [PDict [(ascii ''__template_key'', PStr (ascii ''doubao'')), (ascii ''api_key'', PStr (ascii ''  ''))]])])] = Inr cfg
      \<and> api_keys cfg = [])
   \<and> (\<exists>cfg. load_config [(ascii ''api_settings'', PDict [(ascii ''provider_overrides'', PList
        [PDict [(ascii ''__template_key'', PStr (ascii ''doubao'')), (ascii ''endpoint_id'', PStr (ascii ''ep''))]])])] = Inr cfg
      \<and> api_keys cfg = [])"
proof (intro conjI)
  let ?a = "[(ascii ''provider_overrides'', PList
        [PDict [(ascii ''__template_key'', PStr (ascii ''doubao'')),
                (ascii ''api_keys'', PList [PStr (ascii '' a ''), PStr [], PStr (ascii ''b'')])]])]"
  obtain cfg where l: "load_config [(ascii ''api_settings'', PDict ?a)] = Inr cfg"
    using load_config_of_api_settings by blast
  have m: "map_of (matched_override ?a) (ascii ''api_keys'') = Some (PList [PStr (ascii '' a ''), PStr [], PStr (ascii ''b'')])"
    by (simp add: matched_override_def dget_def dpop_def)
  have "api_keys cfg
      = filter (\<lambda>k. k \<noteq> []) (map strip (str_elements [PStr (ascii '' a ''), PStr [], PStr (ascii ''b'')]))"
    using api_key_normalization [OF l, of ?a] m by (simp add: dget_def)
  also have "\<dots> = [ascii ''a'', ascii ''b'']"
    by (simp add: str_elements_def List.map_filter_simps strip_def is_space_def)
  finally show "\<exists>cfg. load_config [(ascii ''api_settings'', PDict ?a)] = Inr cfg \<and> api_keys cfg = [ascii ''a'', ascii ''b'']"
    using l by blast
next
  let ?a = "[(ascii ''provider_overrides'', PList
        [PDict [(ascii ''__template_key'', PStr (ascii ''doubao'')),
                (ascii ''api_keys'', PList [PStr [0x3000, 97, 0x3000], PInt 7, PStr [0xA0]])]])]"
  obtain cfg where l: "load_config [(ascii ''api_settings'', PDict ?a)] = Inr cfg"
    using load_config_of_api_settings by blast
  have m: "map_of (matched_override ?a) (ascii ''api_keys'') = Some (PList [PStr [0x3000, 97, 0x3000], PInt 7, PStr [0xA0]])"
    by (simp add: matched_override_def dget_def dpop_def)
  have "api_keys cfg
      = filter (\<lambda>k. k \<noteq> []) (map strip (str_elements [PStr [0x3000, 97, 0x3000], PInt 7, PStr [0xA0]]))"
    using api_key_normalization [OF l, of ?a] m by (simp add: dget_def)
  also have "\<dots> = [ascii ''a'']"
    by (simp add: str_elements_def List.map_filter_simps strip_def is_space_def)
  finally show "\<exists>cfg. load_config [(ascii ''api_settings'', PDict ?a)] = Inr cfg \<and> api_keys cfg = [ascii ''a'']"
    using l by blast
next
  let ?a = "[(ascii ''provider_overrides'', PList
        [PDict [(ascii ''__template_key'', PStr (ascii ''doubao'')), (ascii ''api_key'', PStr (ascii '' x ''))]])]"
  obtain cfg where l: "load_config [(ascii ''api_settings'', PDict ?a)] = Inr cfg"
    using load_config_of_api_settings by blast
  have m: "map_of (matched_override ?a) (ascii ''api_keys'') = None
         \<and> map_of (matched_override ?a) (ascii ''api_key'') = Some (PStr (ascii '' x ''))"
    by (simp add: matched_override_def dget_def dpop_def)
  have s: "strip (ascii '' x '') = ascii ''x''" by (simp add: strip_def is_space_def)
  have "api_keys cfg = [ascii ''x'']"
    using api_key_normalization [OF l, of ?a] m s by (simp add: dget_def)
  then show "\<exists>cfg. load_config [(ascii ''api_settings'', PDict ?a)] = Inr cfg \<and> api_keys cfg = [ascii ''x'']"
    using l by blast
next
  let ?a = "[(ascii ''provider_overrides'', PList
        [PDict [(ascii ''__template_key'', PStr (ascii ''doubao'')), (ascii ''api_key'', PStr (ascii ''  ''))]])]"
  obtain cfg where l: "load_config [(ascii ''api_settings'', PDict ?a)] = Inr cfg"
    using load_config_of_api_settings by blast
  have m: "map_of (matched_override ?a) (ascii ''api_keys'') = None
         \<and> map_of (matched_override ?a) (ascii ''api_key'') = Some (PStr (ascii ''  ''))"
    by (simp add: matched_override_def dget_def dpop_def)
  have s: "strip (ascii ''  '') = []" by (simp add: strip_def is_space_def)
  have "api_keys cfg = []"
    using api_key_normalization [OF l, of ?a] m s by (simp add: dget_def)
  then show "\<exists>cfg. load_config [(ascii ''api_settings'', PDict ?a)] = Inr cfg \<and> api_keys cfg = []"
    using l by blast
next
  let ?a = "[(ascii ''provider_overrides'', PList
        [PDict [(ascii ''__template_key'', PStr (ascii ''doubao'')), (ascii ''endpoint_id'', PStr (ascii ''ep''))]])]"
  obtain cfg where l: "load_config [(ascii ''api_settings'', PDict ?a)] = Inr cfg"
    using load_config_of_api_settings by blast
  have m: "map_of (matched_override ?a) (ascii ''api_keys'') = None
         \<and> map_of (matched_override ?a) (ascii ''api_key'') = None"
    by (simp add: matched_override_def dget_def dpop_def)
  have "api_keys cfg = []"
    using api_key_normalization [OF l, of ?a] m by (simp add: dget_def)
  then show "\<exists>cfg. load_config [(ascii ''api_settings'', PDict ?a)] = Inr cfg \<and> api_keys cfg = []"
    using l by blast
qed

lemma load_config_empty: "load_config [] = Inr default_config"
  by (simp add: load_config_def default_config_def dget_def get_receiver_def
                matched_override_def load_api_keys_def)

text \<open>
  C5, as amended. Every entry of the loaded \<open>api_keys\<close> is a non-empty string that neither
  starts nor ends with whitespace in the sense of \<open>str.strip()\<close>, so that stripping it again
  changes nothing. When the matched override has a list under \<open>api_keys\<close>, the loaded
  list is that list's strings in their order, each trimmed, without the ones that trim
  to nothing, and nothing else is removed: an entry occurs as often as elements of the
  list trim to it, so duplicates are kept as configured. The empty configuration loads
  the empty list.
\<close>

theorem api_keys_trimmed_nonempty:
  "(load_config config = Inr cfg \<longrightarrow>
      (\<forall>k\<in>set (api_keys cfg). k \<noteq> [] \<and> \<not> is_space (hd k) \<and> \<not> is_space (last k) \<and> strip k = k))
   \<and> (load_config config = Inr cfg
        \<and> map_of (matched_override (section_of config (ascii ''api_settings''))) (ascii ''api_keys'')
            = Some (PList ks) \<longrightarrow>
      api_keys cfg = filter (\<lambda>k. k \<noteq> []) (map strip (str_elements ks))
      \<and> (\<forall>k. k \<noteq> [] \<longrightarrow>
            count_list (api_keys cfg) k = length (filter (\<lambda>s. strip s = k) (str_elements ks))))
   \<and> (\<exists>cfg0. load_config [] = Inr cfg0 \<and> api_keys cfg0 = [])"
proof -
  have one: "load_config config = Inr cfg \<longrightarrow>
      (\<forall>k\<in>set (api_keys cfg). k \<noteq> [] \<and> \<not> is_space (hd k) \<and> \<not> is_space (last k) \<and> strip k = k)"
  proof (rule impI, rule ballI)
    fix k
    assume l: "load_config config = Inr cfg" and k: "k \<in> set (api_keys cfg)"
    from load_config_api_keys [OF l] k obtain a where "k \<in> set (load_api_keys (matched_override a))"
      by auto
    then have ok: "k \<noteq> [] \<and> strip k = k" by (rule load_api_keys_ok)
    then have "strip k \<noteq> []" by simp
    from strip_ends [OF this] ok
    show "k \<noteq> [] \<and> \<not> is_space (hd k) \<and> \<not> is_space (last k) \<and> strip k = k" by simp
  qed
  have count: "k \<noteq> [] \<Longrightarrow>
      count_list (filter (\<lambda>k. k \<noteq> []) (map strip ss)) k = length (filter (\<lambda>s. strip s = k) ss)"
    for k :: pystr and ss
    by (induction ss) auto
  have two: "load_config config = Inr cfg
        \<and> map_of (matched_override (section_of config (ascii ''api_settings''))) (ascii ''api_keys'')
            = Some (PList ks) \<longrightarrow>
      api_keys cfg = filter (\<lambda>k. k \<noteq> []) (map strip (str_elements ks))
      \<and> (\<forall>k. k \<noteq> [] \<longrightarrow>
            count_list (api_keys cfg) k = length (filter (\<lambda>s. strip s = k) (str_elements ks)))"
  proof (rule impI)
    assume h: "load_config config = Inr cfg
        \<and> map_of (matched_override (section_of config (ascii ''api_settings''))) (ascii ''api_keys'')
            = Some (PList ks)"
    then have "api_keys cfg
        = load_api_keys (matched_override (section_of config (ascii ''api_settings'')))"
      by (intro load_config_keys_of_section) simp
    also have "\<dots> = filter (\<lambda>k. k \<noteq> []) (map strip (str_elements ks))"
      using h by (intro load_api_keys_list) simp
    finally have e: "api_keys cfg = filter (\<lambda>k. k \<noteq> []) (map strip (str_elements ks))" .
    show "api_keys cfg = filter (\<lambda>k. k \<noteq> []) (map strip (str_elements ks))
      \<and> (\<forall>k. k \<noteq> [] \<longrightarrow>
            count_list (api_keys cfg) k = length (filter (\<lambda>s. strip s = k) (str_elements ks)))"
      unfolding e using count by blast
  qed
  have three: "\<exists>cfg0. load_config [] = Inr cfg0 \<and> api_keys cfg0 = []"
    by (simp add: load_config_empty default_config_def)
  from one two three show ?thesis by blast
qed

lemma two_keys_loaded:
  "\<exists>cfg. load_config [(ascii ''api_settings'', PDict [(ascii ''provider_overrides'', PList
        [PDict [(ascii ''__template_key'', PStr (ascii ''doubao'')),
                (ascii ''api_keys'', PList [PStr (ascii ''a''), PStr [0x3000, 97, 0xA0]])]])])] = Inr cfg"
  by (rule load_config_of_api_settings)

theorem api_keys_trimmed_nonempty_witness:
  "\<exists>cfg. load_config [(ascii ''api_settings'', PDict [(ascii ''provider_overrides'', PList
        [PDict [(ascii ''__template_key'', PStr (ascii ''doubao'')),
                (ascii ''api_keys'', PList [PStr (ascii ''a''), PStr [0x3000, 97, 0xA0]])]])])] = Inr cfg
      \<and> api_keys cfg = [ascii ''a'', ascii ''a'']
      \<and> count_list (api_keys cfg) (ascii ''a'') = 2
      \<and> \<not> is_space (hd (ascii ''a'')) \<and> \<not> is_space (last (ascii ''a'')) \<and> strip (ascii ''a'') = ascii ''a''"
proof -
  let ?ks = "[PStr (ascii ''a''), PStr [0x3000, 97, 0xA0]]"
  let ?a = "[(ascii ''provider_overrides'', PList
        [PDict [(ascii ''__template_key'', PStr (ascii ''doubao'')), (ascii ''api_keys'', PList ?ks)]])]"
  let ?config = "[(ascii ''api_settings'', PDict ?a)]"
  from two_keys_loaded obtain cfg where l: "load_config ?config = Inr cfg" by blast
  have m: "map_of (matched_override (section_of ?config (ascii ''api_settings''))) (ascii ''api_keys'')
             = Some (PList ?ks)"
    by (simp add: section_of_def matched_override_def dget_def dpop_def)
  have s: "filter (\<lambda>k. k \<noteq> []) (map strip (str_elements ?ks)) = [ascii ''a'', ascii ''a'']"
    by (simp add: str_elements_def List.map_filter_simps strip_def is_space_def)
  note t = api_keys_trimmed_nonempty [of ?config cfg ?ks]
  from t l m have e: "api_keys cfg = filter (\<lambda>k. k \<noteq> []) (map strip (str_elements ?ks))"
    by blast
  then have k: "api_keys cfg = [ascii ''a'', ascii ''a'']" unfolding s .
  from t l have "\<forall>k\<in>set (api_keys cfg). k \<noteq> [] \<and> \<not> is_space (hd k) \<and> \<not> is_space (last k) \<and> strip k = k"
    by blast
  then have "\<not> is_space (hd (ascii ''a'')) \<and> \<not> is_space (last (ascii ''a'')) \<and> strip (ascii ''a'') = ascii ''a''"
    unfolding k by simp
  moreover have "count_list (api_keys cfg) (ascii ''a'') = 2" unfolding k by simp
  ultimately show ?thesis using l k by blast
qed

text \<open>
  C5 as stated, with "no duplicates": the keys \<open>"a"\<close> and \<open>" a "\<close> load as the list
  \<open>["a", "a"]\<close>.
\<close>

theorem api_keys_not_deduplicated:
  "\<exists>cfg. load_config [(ascii ''api_settings'', PDict [(ascii ''provider_overrides'', PList
        [PDict [(ascii ''__template_key'', PStr (ascii ''doubao'')),
                (ascii ''api_keys'', PList [PStr (ascii ''a''), PStr (ascii '' a '')])]])])] = Inr cfg
      \<and> api_keys cfg = [ascii ''a'', ascii ''a''] \<and> \<not> distinct (api_keys cfg)"
  by (simp add: load_config_def dget_def dpop_def get_receiver_def matched_override_def
                load_api_keys_def strip_def is_space_def Let_def)




section \<open>Properties of the resolution mapping\<close>

lemma ok_ascii_lower: "unicode_ok U \<Longrightarrow> c < 128 \<Longrightarrow> to_lower U c = [ascii_lower c]"
  by (simp add: unicode_ok_def)

lemma ok_ascii_decimal: "unicode_ok U \<Longrightarrow> c < 128 \<Longrightarrow> decimal U c = (48 \<le> c \<and> c \<le> 57)"
  by (simp add: unicode_ok_def)

lemma ok_decimal:
  "unicode_ok U \<Longrightarrow> decimal U c
     \<Longrightarrow> to_lower U c = [c] \<and> \<not> is_space c \<and> c \<noteq> 0x3A3 \<and> c \<noteq> 0x3C2 \<and> c \<noteq> 0x3C3"
  unfolding unicode_ok_def by blast

lemma ok_space: "unicode_ok U \<Longrightarrow> is_space c \<Longrightarrow> to_lower U c = [c]"
  unfolding unicode_ok_def by blast

lemma ok_nonspace:
  "unicode_ok U \<Longrightarrow> \<not> is_space c
     \<Longrightarrow> to_lower U c \<noteq> [] \<and> \<not> is_space (hd (to_lower U c)) \<and> \<not> is_space (last (to_lower U c))"
  unfolding unicode_ok_def by blast

lemma sample_unicode_ok: "unicode_ok sample_unicode"
  unfolding unicode_ok_def sample_unicode_def
  by (auto simp: is_space_def ascii_lower_def)

text \<open>Lowering a text: code point by code point when it has no capital sigma.\<close>

lemma lower_from_nosigma:
  "0x3A3 \<notin> set s \<Longrightarrow> lower_from U b s = concat (map (to_lower U) s)"
  by (induction s arbitrary: b) auto

lemma lower_nosigma: "0x3A3 \<notin> set s \<Longrightarrow> lower U s = concat (map (to_lower U) s)"
  by (simp add: lower_def lower_from_nosigma)

lemma lower_from_sigma:
  "0x3A3 \<in> set s \<Longrightarrow> 0x3C2 \<in> set (lower_from U b s) \<or> 0x3C3 \<in> set (lower_from U b s)"
  by (induction s arbitrary: b) auto

lemma lower_sigma: "0x3A3 \<in> set s \<Longrightarrow> 0x3C2 \<in> set (lower U s) \<or> 0x3C3 \<in> set (lower U s)"
  by (simp add: lower_def lower_from_sigma)

lemma not_space_sigma: "\<not> is_space 0x3A3" "\<not> is_space 0x3C2" "\<not> is_space 0x3C3"
  by (simp_all add: is_space_def)

lemma lower_from_last:
  assumes "unicode_ok U"
  shows "s \<noteq> [] \<Longrightarrow> \<not> is_space (last s)
           \<Longrightarrow> lower_from U b s \<noteq> [] \<and> \<not> is_space (last (lower_from U b s))"
proof (induction s arbitrary: b)
  case Nil
  then show ?case by simp
next
  case (Cons c s)
  let ?piece = "if c = 0x3A3 then [if final_sigma U b s then 0x3C2 else 0x3C3] else to_lower U c"
  show ?case
  proof (cases "s = []")
    case True
    with Cons.prems have c: "\<not> is_space c" by simp
    have "?piece \<noteq> [] \<and> \<not> is_space (last ?piece)"
      using ok_nonspace [OF assms c] not_space_sigma by simp
    with True show ?thesis by (auto simp: not_space_sigma)
  next
    case False
    with Cons.prems have "\<not> is_space (last s)" by simp
    from Cons.IH [OF False this, of "c # b"]
    have "lower_from U (c # b) s \<noteq> [] \<and> \<not> is_space (last (lower_from U (c # b) s))" .
    then show ?thesis by simp
  qed
qed

lemma concat_singletons: "\<forall>c\<in>set s. f c = [c] \<Longrightarrow> concat (map f s) = s"
  by (induction s) simp_all

lemma filter_concat_filter:
  assumes "f 32 = [32]"
  shows "filter (\<lambda>c. c \<noteq> 32) (concat (map f (filter (\<lambda>c. c \<noteq> 32) s)))
       = filter (\<lambda>c. c \<noteq> (32::nat)) (concat (map f s))"
  using assms by (induction s) simp_all

text \<open>The normal form: the input stripped, lowered and freed of spaces.\<close>

lemma normal_form_padded:
  "\<forall>c\<in>set u. is_space c \<Longrightarrow> \<forall>c\<in>set v. is_space c
     \<Longrightarrow> normal_form U (u @ s @ v) = normal_form U s"
  by (simp add: normal_form_def strip_padded)

lemma normal_form_last:
  assumes "unicode_ok U" and "normal_form U r \<noteq> []"
  shows "\<not> is_space (last (normal_form U r))"
proof -
  let ?s = "strip r"
  have ne: "?s \<noteq> []"
  proof
    assume "?s = []"
    then have "normal_form U r = []" by (simp add: normal_form_def lower_def)
    with assms(2) show False by simp
  qed
  from strip_ends [OF ne] have "\<not> is_space (last ?s)" by simp
  from lower_from_last [OF assms(1) ne this, of "[]"]
  have l: "lower U ?s \<noteq> []" "\<not> is_space (last (lower U ?s))" by (simp_all add: lower_def)
  from l(2) is_space_32 have "last (lower U ?s) \<noteq> 32" by metis
  from last_filter_kept [of "lower U ?s" "\<lambda>c. c \<noteq> 32", OF l(1) this]
  have "last (normal_form U r) = last (lower U ?s)" by (simp add: normal_form_def)
  with l(2) show ?thesis by simp
qed

lemma normal_form_sigma:
  assumes "0x3A3 \<in> set r"
  shows "0x3C2 \<in> set (normal_form U r) \<or> 0x3C3 \<in> set (normal_form U r)"
proof -
  from assms not_space_sigma(1) have "0x3A3 \<in> set (strip r)" by (rule strip_keeps)
  from lower_sigma [OF this, of U] show ?thesis by (auto simp: normal_form_def)
qed

lemma normal_form_nosigma:
  assumes "unicode_ok U" and "0x3A3 \<notin> set r"
  shows "normal_form U r = filter (\<lambda>c. c \<noteq> 32) (strip (lower U r))"
proof -
  from assms(2) have "0x3A3 \<notin> set (strip r)" using set_strip by metis
  then have "lower U (strip r) = concat (map (to_lower U) (strip r))" by (rule lower_nosigma)
  also have "\<dots> = strip (concat (map (to_lower U) r))"
    using ok_space [OF assms(1)] ok_nonspace [OF assms(1)] by (intro strip_concat [symmetric])
  also have "\<dots> = strip (lower U r)" using assms(2) by (simp add: lower_nosigma)
  finally show ?thesis by (simp add: normal_form_def)
qed

lemma normal_form_filter:
  assumes "unicode_ok U" and "0x3A3 \<notin> set r"
  shows "normal_form U (filter (\<lambda>c. c \<noteq> 32) r) = normal_form U r"
proof -
  have t: "to_lower U 32 = [32]" using ok_space [OF assms(1) is_space_32] .
  from assms(2) have a: "0x3A3 \<notin> set (strip r)" using set_strip by metis
  then have b: "0x3A3 \<notin> set (filter (\<lambda>c. c \<noteq> 32) (strip r))" by simp
  have "normal_form U (filter (\<lambda>c. c \<noteq> 32) r)
      = filter (\<lambda>c. c \<noteq> 32) (lower U (filter (\<lambda>c. c \<noteq> 32) (strip r)))"
    by (simp add: normal_form_def strip_filter)
  also have "\<dots> = filter (\<lambda>c. c \<noteq> 32)
                      (concat (map (to_lower U) (filter (\<lambda>c. c \<noteq> 32) (strip r))))"
    by (simp only: lower_nosigma [OF b])
  also have "\<dots> = filter (\<lambda>c. c \<noteq> 32) (concat (map (to_lower U) (strip r)))"
    using t by (rule filter_concat_filter)
  also have "\<dots> = normal_form U r" by (simp only: normal_form_def lower_nosigma [OF a])
  finally show ?thesis .
qed

lemma normal_form_of_token:
  assumes "unicode_ok U" and "s \<noteq> []" and "\<forall>c\<in>set s. decimal U c \<or> c = 120"
  shows "normal_form U s = s"
proof -
  have x: "\<not> is_space 120" "to_lower U 120 = [120]"
    using ok_ascii_lower [OF assms(1), of 120] by (simp_all add: is_space_def ascii_lower_def)
  have each: "\<forall>c\<in>set s. to_lower U c = [c] \<and> \<not> is_space c \<and> c \<noteq> 0x3A3 \<and> c \<noteq> 32"
  proof
    fix c
    assume "c \<in> set s"
    with assms(3) have "decimal U c \<or> c = 120" by blast
    then show "to_lower U c = [c] \<and> \<not> is_space c \<and> c \<noteq> 0x3A3 \<and> c \<noteq> 32"
      using ok_decimal [OF assms(1), of c] x is_space_32 by auto
  qed
  from assms(2) each have "\<not> is_space (hd s)" "\<not> is_space (last s)" by simp_all
  with assms(2) have st: "strip s = s" by (rule strip_fixed)
  from each have "0x3A3 \<notin> set s" by blast
  then have "lower U s = concat (map (to_lower U) s)" by (rule lower_nosigma)
  also have "\<dots> = s" using each by (intro concat_singletons) blast
  finally have lo: "lower U s = s" .
  have "filter (\<lambda>c. c \<noteq> 32) s = s" using each by (intro filter_True) blast
  with st lo show ?thesis by (simp add: normal_form_def)
qed

text \<open>The pattern.\<close>

lemma match_size_intro:
  assumes "unicode_ok U" and "\<forall>c\<in>set w. decimal U c" and "\<forall>c\<in>set h. decimal U c"
    and "3 \<le> length w" "length w \<le> 5" "3 \<le> length h" "length h \<le> 5"
  shows "match_size U (w @ [120] @ h)"
proof -
  have nx: "\<not> decimal U 120" using ok_ascii_decimal [OF assms(1), of 120] by simp
  have tw: "takeWhile (decimal U) (w @ 120 # h) = w"
    using assms(2) nx by (simp add: takeWhile_append2)
  have dw: "dropWhile (decimal U) (w @ 120 # h) = 120 # h"
    using assms(2) nx by (simp add: dropWhile_append2)
  have th: "takeWhile (decimal U) h = h" using assms(3) by (simp add: takeWhile_eq_all_conv)
  have dh: "dropWhile (decimal U) h = []" using assms(3) by simp
  show ?thesis
    unfolding match_size_def Let_def append_Cons append_Nil tw dw list.case th dh
    using assms(4-7) by simp
qed

lemma match_size_elim:
  assumes "match_size U s" and "s = [] \<or> \<not> is_space (last s)"
  shows "size_token U s"
proof -
  let ?w = "takeWhile (decimal U) s"
  let ?rest = "dropWhile (decimal U) s"
  from assms(1) obtain after_x where rest: "?rest = 120 # after_x"
    and lw: "3 \<le> length ?w" "length ?w \<le> 5"
    and lh: "3 \<le> length (takeWhile (decimal U) after_x)"
            "length (takeWhile (decimal U) after_x) \<le> 5"
    and tail: "dropWhile (decimal U) after_x = [] \<or> dropWhile (decimal U) after_x = [10]"
    by (auto simp: match_size_def Let_def split: list.splits)
  let ?h = "takeWhile (decimal U) after_x"
  have s: "s = ?w @ 120 # ?h @ dropWhile (decimal U) after_x"
  proof -
    have "s = ?w @ ?rest" by simp
    also have "?rest = 120 # (?h @ dropWhile (decimal U) after_x)"
      by (simp add: rest)
    finally show ?thesis .
  qed
  have "dropWhile (decimal U) after_x = []"
  proof (rule ccontr)
    assume "dropWhile (decimal U) after_x \<noteq> []"
    with tail have t: "dropWhile (decimal U) after_x = [10]" by blast
    have "last s = last (?w @ 120 # ?h @ [10])" using s t by simp
    then have "last s = 10" by simp
    moreover have "s \<noteq> []" using s by auto
    moreover have "is_space 10" by (simp add: is_space_def)
    ultimately show False using assms(2) by simp
  qed
  with s have "s = ?w @ [120] @ ?h" by simp
  moreover have "\<forall>c\<in>set ?w. decimal U c" by (auto dest: set_takeWhileD)
  moreover have "\<forall>c\<in>set ?h. decimal U c" by (auto dest: set_takeWhileD)
  ultimately show ?thesis using lw lh by blast
qed

lemma match_size_normal_form:
  assumes "unicode_ok U"
  shows "match_size U (normal_form U r) = size_token U (normal_form U r)"
proof
  assume m: "match_size U (normal_form U r)"
  have "normal_form U r = [] \<or> \<not> is_space (last (normal_form U r))"
    using normal_form_last [OF assms] by blast
  from match_size_elim [OF m this] show "size_token U (normal_form U r)" .
next
  assume "size_token U (normal_form U r)"
  then show "match_size U (normal_form U r)" using match_size_intro [OF assms] by metis
qed

lemma size_token_chars:
  assumes "size_token U s"
  shows "s \<noteq> [] \<and> (\<forall>c\<in>set s. decimal U c \<or> c = 120)"
  using assms by auto

text \<open>The mapping is a function of the normal form.\<close>

lemma map_resolution_normal:
  "map_resolution U r m =
     (if match_size U (normal_form U r) then normal_form U r
      else if normal_form U r = ascii ''1k'' \<or> normal_form U r = ascii ''1024'' then ascii ''1K''
      else if normal_form U r = ascii ''2k'' \<or> normal_form U r = ascii ''2048'' then ascii ''2K''
      else if normal_form U r = ascii ''4k'' \<or> normal_form U r = ascii ''4096'' then ascii ''4K''
      else ascii ''2K'')"
proof -
  have m: "\<not> match_size U []" by (simp add: match_size_def)
  show ?thesis
  proof (cases "r = [] \<or> strip r = []")
    case True
    have "strip [] = []" by (simp add: strip_def)
    with True have st: "strip r = []" by auto
    have n: "normal_form U r = []" unfolding normal_form_def st by (simp add: lower_def)
    have "map_resolution U r m = ascii ''2K''" unfolding map_resolution_def Let_def st by simp
    with n m show ?thesis by simp
  next
    case False
    then show ?thesis by (simp add: map_resolution_def normal_form_def Let_def)
  qed
qed

lemma no_match_tokens:
  assumes "unicode_ok U"
  shows "\<not> match_size U (ascii ''1k'')" "\<not> match_size U (ascii ''1024'')"
    "\<not> match_size U (ascii ''2k'')" "\<not> match_size U (ascii ''2048'')"
    "\<not> match_size U (ascii ''4k'')" "\<not> match_size U (ascii ''4096'')"
  by (simp_all add: match_size_def ok_ascii_decimal [OF assms])

lemma normal_form_fixed_tokens:
  assumes "unicode_ok U"
  shows "normal_form U (ascii ''1K'') = ascii ''1k''" "normal_form U (ascii ''2K'') = ascii ''2k''"
    "normal_form U (ascii ''4K'') = ascii ''4k''"
  by (simp_all add: normal_form_def strip_def is_space_def lower_def ok_ascii_lower [OF assms]
                    ascii_lower_def)

lemma map_resolution_fixed_tokens:
  assumes "unicode_ok U"
  shows "map_resolution U (ascii ''1K'') m = ascii ''1K''"
    "map_resolution U (ascii ''2K'') m = ascii ''2K''"
    "map_resolution U (ascii ''4K'') m = ascii ''4K''"
  unfolding map_resolution_normal normal_form_fixed_tokens [OF assms]
  using no_match_tokens [OF assms] by simp_all

lemma map_resolution_of_token:
  assumes "unicode_ok U" and "size_token U s"
  shows "map_resolution U s m = s"
proof -
  from size_token_chars [OF assms(2)]
  have "normal_form U s = s" using normal_form_of_token [OF assms(1)] by blast
  moreover from assms(2) have "match_size U s" using match_size_intro [OF assms(1)] by metis
  ultimately show ?thesis by (simp add: map_resolution_normal)
qed

lemma map_resolution_idem:
  assumes "unicode_ok U"
  shows "map_resolution U (map_resolution U r m) m' = map_resolution U r m"
proof (cases "match_size U (normal_form U r)")
  case True
  then have r: "map_resolution U r m = normal_form U r" by (simp add: map_resolution_normal)
  from True have "size_token U (normal_form U r)"
    by (simp only: match_size_normal_form [OF assms])
  then have "map_resolution U (normal_form U r) m' = normal_form U r"
    using assms by (intro map_resolution_of_token)
  with r show ?thesis by simp
next
  case False
  then have "map_resolution U r m = ascii ''1K'' \<or> map_resolution U r m = ascii ''2K''
           \<or> map_resolution U r m = ascii ''4K''"
    by (simp add: map_resolution_normal)
  then show ?thesis using map_resolution_fixed_tokens [OF assms] by auto
qed

lemma small_sigma_default:
  assumes "unicode_ok U"
    and "0x3C2 \<in> set (normal_form U r) \<or> 0x3C3 \<in> set (normal_form U r)"
  shows "map_resolution U r m = ascii ''2K''"
proof -
  have "\<not> match_size U (normal_form U r)"
  proof
    assume "match_size U (normal_form U r)"
    then have "size_token U (normal_form U r)" by (simp only: match_size_normal_form [OF assms(1)])
    from size_token_chars [OF this]
    have "\<forall>c\<in>set (normal_form U r). decimal U c \<or> c = 120" by blast
    with assms(2) have "decimal U 0x3C2 \<or> decimal U 0x3C3" by auto
    with ok_decimal [OF assms(1)] show False by blast
  qed
  moreover have "normal_form U r \<noteq> ascii ''1k''" "normal_form U r \<noteq> ascii ''1024''"
    "normal_form U r \<noteq> ascii ''4k''" "normal_form U r \<noteq> ascii ''4096''"
    using assms(2) by auto
  ultimately show ?thesis by (simp add: map_resolution_normal)
qed

lemma capital_sigma_default:
  assumes "unicode_ok U" and "0x3A3 \<in> set r"
  shows "map_resolution U r m = ascii ''2K''"
  using small_sigma_default [OF assms(1) normal_form_sigma [OF assms(2)]] .

lemma map_resolution_lower:
  assumes "unicode_ok U" and "lower U r1 = lower U r2"
  shows "map_resolution U r1 m = map_resolution U r2 m"
proof -
  have one: "map_resolution U a m = map_resolution U b m"
    if a: "0x3A3 \<in> set a" and b: "0x3A3 \<notin> set b" and e: "lower U a = lower U b" for a b
  proof -
    from lower_sigma [OF a, of U] e
    have "0x3C2 \<in> set (lower U b) \<or> 0x3C3 \<in> set (lower U b)" by simp
    then have "0x3C2 \<in> set (strip (lower U b)) \<or> 0x3C3 \<in> set (strip (lower U b))"
      using strip_keeps not_space_sigma by metis
    then have "0x3C2 \<in> set (normal_form U b) \<or> 0x3C3 \<in> set (normal_form U b)"
      by (auto simp: normal_form_nosigma [OF assms(1) b])
    from small_sigma_default [OF assms(1) this]
    have "map_resolution U b m = ascii ''2K''" .
    with capital_sigma_default [OF assms(1) a] show ?thesis by simp
  qed
  show ?thesis
  proof (cases "0x3A3 \<in> set r1")
    case True
    show ?thesis
    proof (cases "0x3A3 \<in> set r2")
      case True
      with \<open>0x3A3 \<in> set r1\<close> capital_sigma_default [OF assms(1)] show ?thesis by simp
    next
      case False
      from one [OF True False assms(2)] show ?thesis .
    qed
  next
    case False
    show ?thesis
    proof (cases "0x3A3 \<in> set r2")
      case True
      from one [OF True False assms(2) [symmetric]] show ?thesis by simp
    next
      case r2: False
      from normal_form_nosigma [OF assms(1) False] normal_form_nosigma [OF assms(1) r2] assms(2)
      have "normal_form U r1 = normal_form U r2" by simp
      then show ?thesis by (simp only: map_resolution_normal)
    qed
  qed
qed

lemma map_resolution_spaces:
  assumes "unicode_ok U" and "filter (\<lambda>c. c \<noteq> 32) r1 = filter (\<lambda>c. c \<noteq> 32) r2"
  shows "map_resolution U r1 m = map_resolution U r2 m"
proof -
  have "(0x3A3 \<in> set (filter (\<lambda>c. c \<noteq> 32) r1)) = (0x3A3 \<in> set (filter (\<lambda>c. c \<noteq> 32) r2))"
    using assms(2) by simp
  then have same: "(0x3A3 \<in> set r1) = (0x3A3 \<in> set r2)" by simp
  show ?thesis
  proof (cases "0x3A3 \<in> set r1")
    case True
    with same capital_sigma_default [OF assms(1)] show ?thesis by simp
  next
    case False
    with same have r2: "0x3A3 \<notin> set r2" by simp
    from normal_form_filter [OF assms(1) False] normal_form_filter [OF assms(1) r2] assms(2)
    have "normal_form U r1 = normal_form U r2" by simp
    then show ?thesis by (simp only: map_resolution_normal)
  qed
qed

text \<open>
  C4, as amended. For a Unicode database \<open>U\<close> with the facts \<open>unicode_ok\<close>,
  \<open>_map_resolution\<close> returns a value for every input, ignores its \<open>model\<close> argument, and
  maps its own result to itself. With \<open>normal_form U r\<close> the input stripped, lowered and
  freed of spaces, the result is exactly one of:
  \<^item> \<open>normal_form U r\<close> itself, when that is 3 to 5 decimal digits, \<open>x\<close>, 3 to 5 decimal
    digits (an input that has this shape already is returned as it stands);
  \<^item> \<open>1K\<close> when it is \<open>1k\<close> or \<open>1024\<close>, \<open>2K\<close> when it is \<open>2k\<close> or \<open>2048\<close>, \<open>4K\<close> when it
    is \<open>4k\<close> or \<open>4096\<close>;
  \<^item> \<open>2K\<close> for every other input, the empty string among them.
  Inputs with the same lower case, inputs that differ in whitespace at either end, and
  inputs that differ in space characters (code point 32) anywhere map to the same result.
  Whitespace other than the space inside the token is kept, and such a token falls to
  the default. The decimal digits are those of \<open>U\<close>, the full-width digits among them.
\<close>

theorem map_resolution_total_idempotent:
  assumes "unicode_ok U"
  shows "map_resolution U (map_resolution U r m) m' = map_resolution U r m
   \<and> map_resolution U r m' = map_resolution U r m
   \<and> (map_resolution U r m \<in> {ascii ''1K'', ascii ''2K'', ascii ''4K''}
        \<or> (map_resolution U r m = normal_form U r \<and> size_token U (normal_form U r)))
   \<and> (size_token U (normal_form U r) \<longrightarrow> map_resolution U r m = normal_form U r)
   \<and> (size_token U r \<longrightarrow> map_resolution U r m = r)
   \<and> (normal_form U r \<in> {ascii ''1k'', ascii ''1024''} \<longrightarrow> map_resolution U r m = ascii ''1K'')
   \<and> (normal_form U r \<in> {ascii ''2k'', ascii ''2048''} \<longrightarrow> map_resolution U r m = ascii ''2K'')
   \<and> (normal_form U r \<in> {ascii ''4k'', ascii ''4096''} \<longrightarrow> map_resolution U r m = ascii ''4K'')
   \<and> (\<not> size_token U (normal_form U r)
        \<and> normal_form U r \<notin> {ascii ''1k'', ascii ''1024'', ascii ''4k'', ascii ''4096''}
        \<longrightarrow> map_resolution U r m = ascii ''2K'')
   \<and> normal_form U r = filter (\<lambda>c. c \<noteq> 32) (lower U (strip r))
   \<and> (lower U r1 = lower U r2 \<longrightarrow> map_resolution U r1 m = map_resolution U r2 m)
   \<and> ((\<forall>c\<in>set u. is_space c) \<and> (\<forall>c\<in>set v. is_space c)
        \<longrightarrow> map_resolution U (u @ r @ v) m = map_resolution U r m)
   \<and> (filter (\<lambda>c. c \<noteq> 32) r1 = filter (\<lambda>c. c \<noteq> 32) r2
        \<longrightarrow> map_resolution U r1 m = map_resolution U r2 m)"
proof -
  note nm = no_match_tokens [OF assms]
  note ms = match_size_normal_form [OF assms, symmetric]
  have p1: "map_resolution U (map_resolution U r m) m' = map_resolution U r m"
    using assms by (rule map_resolution_idem)
  have p2: "map_resolution U r m' = map_resolution U r m"
    by (simp add: map_resolution_normal)
  have p3: "map_resolution U r m \<in> {ascii ''1K'', ascii ''2K'', ascii ''4K''}
        \<or> (map_resolution U r m = normal_form U r \<and> size_token U (normal_form U r))"
    unfolding ms by (simp add: map_resolution_normal)
  have p4: "size_token U (normal_form U r) \<longrightarrow> map_resolution U r m = normal_form U r"
    unfolding ms by (simp add: map_resolution_normal)
  have p4': "size_token U r \<longrightarrow> map_resolution U r m = r"
    using map_resolution_of_token [OF assms] by blast
  have p5: "normal_form U r \<in> {ascii ''1k'', ascii ''1024''} \<longrightarrow> map_resolution U r m = ascii ''1K''"
    using nm by (auto simp: map_resolution_normal)
  have p6: "normal_form U r \<in> {ascii ''2k'', ascii ''2048''} \<longrightarrow> map_resolution U r m = ascii ''2K''"
    using nm by (auto simp: map_resolution_normal)
  have p7: "normal_form U r \<in> {ascii ''4k'', ascii ''4096''} \<longrightarrow> map_resolution U r m = ascii ''4K''"
    using nm by (auto simp: map_resolution_normal)
  have p8: "\<not> size_token U (normal_form U r)
        \<and> normal_form U r \<notin> {ascii ''1k'', ascii ''1024'', ascii ''4k'', ascii ''4096''}
        \<longrightarrow> map_resolution U r m = ascii ''2K''"
    unfolding ms by (simp add: map_resolution_normal)
  have p9: "normal_form U r = filter (\<lambda>c. c \<noteq> 32) (lower U (strip r))"
    by (rule normal_form_def)
  have p10: "lower U r1 = lower U r2 \<longrightarrow> map_resolution U r1 m = map_resolution U r2 m"
    using map_resolution_lower [OF assms] by blast
  have p11: "(\<forall>c\<in>set u. is_space c) \<and> (\<forall>c\<in>set v. is_space c)
        \<longrightarrow> map_resolution U (u @ r @ v) m = map_resolution U r m"
  proof
    assume "(\<forall>c\<in>set u. is_space c) \<and> (\<forall>c\<in>set v. is_space c)"
    then have "normal_form U (u @ r @ v) = normal_form U r" by (simp add: normal_form_padded)
    then show "map_resolution U (u @ r @ v) m = map_resolution U r m"
      by (simp only: map_resolution_normal)
  qed
  have p12: "filter (\<lambda>c. c \<noteq> 32) r1 = filter (\<lambda>c. c \<noteq> 32) r2
        \<longrightarrow> map_resolution U r1 m = map_resolution U r2 m"
    using map_resolution_spaces [OF assms] by blast
  from p1 p2 p3 p4 p4' p5 p6 p7 p8 p9 p10 p11 p12 show ?thesis by blast
qed

lemma sample_lower_examples:
  "lower sample_unicode (ascii ''800X600'') = ascii ''800x600''"
  "lower sample_unicode (ascii ''800x600'') = ascii ''800x600''"
  "lower sample_unicode [52, 0x212A] = ascii ''4k''"
  "lower sample_unicode (ascii ''4k'') = ascii ''4k''"
  by (simp_all add: lower_def sample_unicode_def ascii_lower_def)

lemma sample_normal_form_examples:
  "normal_form sample_unicode (ascii ''4k'') = ascii ''4k''"
  "normal_form sample_unicode (ascii ''1024'') = ascii ''1024''"
  "normal_form sample_unicode (ascii ''weird'') = ascii ''weird''"
  "normal_form sample_unicode [] = []"
  by (simp_all add: normal_form_def strip_def is_space_def lower_def sample_unicode_def
                    ascii_lower_def)

theorem map_resolution_total_idempotent_witness:
  "map_resolution sample_unicode (ascii '' 800X600 '') (ascii ''ep'') = ascii ''800x600''
   \<and> map_resolution sample_unicode (ascii ''4k'') (ascii ''ep'') = ascii ''4K''
   \<and> map_resolution sample_unicode [] (ascii ''ep'') = ascii ''2K''
   \<and> map_resolution sample_unicode (ascii ''weird'') (ascii ''ep'') = ascii ''2K''
   \<and> map_resolution sample_unicode (ascii ''1 0 2 4'') (ascii ''ep'') = ascii ''1K''
   \<and> map_resolution sample_unicode (ascii ''800x600'') (ascii ''ep'') = ascii ''800x600''
   \<and> map_resolution sample_unicode [0xFF11, 0xFF12, 0xFF13, 120, 0xFF14, 0xFF15, 0xFF16] (ascii ''ep'')
       = [0xFF11, 0xFF12, 0xFF13, 120, 0xFF14, 0xFF15, 0xFF16]
   \<and> map_resolution sample_unicode [52, 0x212A] (ascii ''ep'') = ascii ''4K''"
proof -
  note t = map_resolution_total_idempotent [OF sample_unicode_ok]
  have sp: "\<forall>c\<in>set (ascii '' ''). is_space c" by (simp add: is_space_def)
  have tok: "size_token sample_unicode (ascii ''800x600'')"
    by (intro exI [of _ "ascii ''800''"] exI [of _ "ascii ''600''"])
       (simp add: sample_unicode_def)
  have a: "map_resolution sample_unicode (ascii ''800x600'') (ascii ''ep'') = ascii ''800x600''"
    using t [of "ascii ''800x600''" "ascii ''ep''"] tok by blast
  have lo: "lower sample_unicode (ascii ''800X600'') = lower sample_unicode (ascii ''800x600'')"
    by (simp only: sample_lower_examples)
  have b: "map_resolution sample_unicode (ascii ''800X600'') (ascii ''ep'')
         = map_resolution sample_unicode (ascii ''800x600'') (ascii ''ep'')"
    using t [of _ "ascii ''ep''" _ "ascii ''800X600''" "ascii ''800x600''"] lo by blast
  have "map_resolution sample_unicode (ascii '' '' @ ascii ''800X600'' @ ascii '' '') (ascii ''ep'')
         = map_resolution sample_unicode (ascii ''800X600'') (ascii ''ep'')"
    using t [of "ascii ''800X600''" "ascii ''ep''" _ _ _ "ascii '' ''" "ascii '' ''"] sp by blast
  then have c: "map_resolution sample_unicode (ascii '' 800X600 '') (ascii ''ep'')
         = map_resolution sample_unicode (ascii ''800X600'') (ascii ''ep'')"
    by simp
  have n4: "normal_form sample_unicode (ascii ''4k'') \<in> {ascii ''4k'', ascii ''4096''}"
    by (simp only: sample_normal_form_examples) simp
  have d: "map_resolution sample_unicode (ascii ''4k'') (ascii ''ep'') = ascii ''4K''"
    using t [of "ascii ''4k''" "ascii ''ep''"] n4 by blast
  have n1: "normal_form sample_unicode (ascii ''1024'') \<in> {ascii ''1k'', ascii ''1024''}"
    by (simp only: sample_normal_form_examples) simp
  have f1: "filter (\<lambda>c. c \<noteq> 32) (ascii ''1 0 2 4'') = filter (\<lambda>c. c \<noteq> 32) (ascii ''1024'')"
    by simp
  have e1: "map_resolution sample_unicode (ascii ''1024'') (ascii ''ep'') = ascii ''1K''"
    using t [of "ascii ''1024''" "ascii ''ep''"] n1 by blast
  have e2: "map_resolution sample_unicode (ascii ''1 0 2 4'') (ascii ''ep'')
          = map_resolution sample_unicode (ascii ''1024'') (ascii ''ep'')"
    using t [of _ "ascii ''ep''" _ "ascii ''1 0 2 4''" "ascii ''1024''"] f1 by blast
  have tokw: "size_token sample_unicode [0xFF11, 0xFF12, 0xFF13, 120, 0xFF14, 0xFF15, 0xFF16]"
    by (intro exI [of _ "[0xFF11, 0xFF12, 0xFF13]"] exI [of _ "[0xFF14, 0xFF15, 0xFF16]"])
       (simp add: sample_unicode_def)
  have g: "map_resolution sample_unicode [0xFF11, 0xFF12, 0xFF13, 120, 0xFF14, 0xFF15, 0xFF16] (ascii ''ep'')
       = [0xFF11, 0xFF12, 0xFF13, 120, 0xFF14, 0xFF15, 0xFF16]"
    using t [of "[0xFF11, 0xFF12, 0xFF13, 120, 0xFF14, 0xFF15, 0xFF16]" "ascii ''ep''"] tokw
    by blast
  have lk: "lower sample_unicode [52, 0x212A] = lower sample_unicode (ascii ''4k'')"
    by (simp only: sample_lower_examples)
  have h: "map_resolution sample_unicode [52, 0x212A] (ascii ''ep'')
         = map_resolution sample_unicode (ascii ''4k'') (ascii ''ep'')"
    using t [of _ "ascii ''ep''" _ "[52, 0x212A]" "ascii ''4k''"] lk by blast
  have nn: "\<not> size_token sample_unicode (normal_form sample_unicode [])
        \<and> normal_form sample_unicode [] \<notin> {ascii ''1k'', ascii ''1024'', ascii ''4k'', ascii ''4096''}"
    by (simp only: sample_normal_form_examples) simp
  have f: "map_resolution sample_unicode [] (ascii ''ep'') = ascii ''2K''"
    using t [of "[]" "ascii ''ep''"] nn by blast
  have nw1: "\<not> size_token sample_unicode (ascii ''weird'')"
  proof
    assume "size_token sample_unicode (ascii ''weird'')"
    then obtain w h where "ascii ''weird'' = w @ [120] @ h" by blast
    then have "120 \<in> set (ascii ''weird'')" by (metis in_set_conv_decomp append_Cons append_Nil)
    then show False by simp
  qed
  have nw: "\<not> size_token sample_unicode (normal_form sample_unicode (ascii ''weird''))
        \<and> normal_form sample_unicode (ascii ''weird'')
            \<notin> {ascii ''1k'', ascii ''1024'', ascii ''4k'', ascii ''4096''}"
    using nw1 by (simp only: sample_normal_form_examples) simp
  have w: "map_resolution sample_unicode (ascii ''weird'') (ascii ''ep'') = ascii ''2K''"
    using t [of "ascii ''weird''" "ascii ''ep''"] nw by blast
  from a b c d e1 e2 f g h w show ?thesis by simp
qed

text \<open>
  C4 as stated, insensitive to whitespace: a tab is whitespace, yet \<open>4<tab>k\<close> maps to
  \<open>2K\<close> where \<open>4k\<close> maps to \<open>4K\<close>.
\<close>

theorem interior_tab_changes_mapping:
  "is_space 9
   \<and> map_resolution sample_unicode [52, 9, 107] (ascii ''ep'') = ascii ''2K''
   \<and> map_resolution sample_unicode (ascii ''4k'') (ascii ''ep'') = ascii ''4K''"
  by (simp add: map_resolution_def match_size_def strip_def is_space_def lower_def
                sample_unicode_def ascii_lower_def)

section \<open>Properties of the image request\<close>

lemma generate_image_sent:
  assumes "client_api_keys self \<noteq> []"
    and "build_request U self e prompt reference_image res = Inr req"
  shows "generate_image U self e prompt reference_image res =
           \<lparr>result = snd (guarded_post e req), sent = [req], written = fst (guarded_post e req)\<rparr>"
  using assms by (simp add: generate_image_def split: prod.splits)


lemma guarded_post_not_200:
  assumes "post e req = PostReturns (Response status (Inr body) js)" and "status \<noteq> 200"
  shows "guarded_post e req =
           ([], Inr (False, PStr (request_failed_prefix @ str_int status @ ascii '' - '' @ body)))"
  using assms by (simp add: guarded_post_def handle_response_def)

lemma guarded_post_text_raises:
  assumes "post e req = PostReturns (Response status (Inl ex) js)" and "status \<noteq> 200"
    and "is_exception ex"
  shows "guarded_post e req = ([], Inr (False, PStr (request_exception_prefix @ str_exn ex)))"
  using assms by (simp add: guarded_post_def handle_response_def)

lemma guarded_post_text_escapes:
  assumes "post e req = PostReturns (Response status (Inl ex) js)" and "status \<noteq> 200"
    and "\<not> is_exception ex"
  shows "guarded_post e req = ([], Inl ex)"
  using assms by (simp add: guarded_post_def handle_response_def)




lemma build_request_no_reference:
  "\<exists>req. build_request U self e prompt None res = Inr req"
  by (simp add: build_request_def reference_field_def Let_def)

lemma request_failed_text:
  "request_failed_prefix = [65, 80, 73, 0x8BF7, 0x6C42, 0x5931, 0x8D25, 58, 32]"
  by (simp add: request_failed_prefix_def)

lemma request_exception_text:
  "request_exception_prefix = [65, 80, 73, 0x8BF7, 0x6C42, 0x5F02, 0x5E38, 58, 32]"
  by (simp add: request_exception_prefix_def)


lemma str_int_500: "str_int 500 = ascii ''500''"
  by (simp add: str_int_def str_nat.simps)

text \<open>
  C8, as amended. Keys are configured, the request is built, and the server answers with
  a status that is not 200 (the source tests \<open>status != 200\<close>; every status outside 200 to
  299 is among these). Then:
  \<^item> when \<open>response.text()\<close> gives the body, the call returns \<open>False\<close> with the code points
    of \<open>API\<close>, U+8BF7 U+6C42 U+5931 U+8D25 ("request failed"), a colon and a space, then
    the status in decimal, then \<open>" - "\<close>, then the body as it is;
  \<^item> when \<open>response.text()\<close> raises an \<open>Exception\<close>, the call returns \<open>False\<close> with the
    code points of \<open>API\<close>, U+8BF7 U+6C42 U+5F02 U+5E38 ("request exception"), a colon and
    a space, then the text of the exception: neither the status nor the body is in
    the result;
  \<^item> when \<open>response.text()\<close> is cut off by a cancellation of the task, that escapes.
  In each case one request was issued and nothing is written. The decimal digits of a
  status that is not negative are \<open>0\<close> to \<open>9\<close> and read back as the status. The witness is
  the response 500 with body \<open>server error\<close>.
\<close>

theorem non_2xx_failure_carries_status_and_body:
  assumes "client_api_keys self \<noteq> []"
    and "build_request U self e prompt reference_image res = Inr req"
    and "post e req = PostReturns (Response status txt js)"
    and "status \<noteq> 200"
  shows "(\<forall>body. txt = Inr body \<longrightarrow>
            generate_image U self e prompt reference_image res =
              \<lparr>result = Inr (False, PStr ([65, 80, 73, 0x8BF7, 0x6C42, 0x5931, 0x8D25, 58, 32]
                                          @ str_int status @ [32, 45, 32] @ body)),
               sent = [req], written = []\<rparr>)
       \<and> (\<forall>ex. txt = Inl ex \<and> is_exception ex \<longrightarrow>
            generate_image U self e prompt reference_image res =
              \<lparr>result = Inr (False, PStr ([65, 80, 73, 0x8BF7, 0x6C42, 0x5F02, 0x5E38, 58, 32]
                                          @ str_exn ex)),
               sent = [req], written = []\<rparr>)
       \<and> (\<forall>ex. txt = Inl ex \<and> \<not> is_exception ex \<longrightarrow>
            generate_image U self e prompt reference_image res =
              \<lparr>result = Inl ex, sent = [req], written = []\<rparr>)
       \<and> (0 \<le> status \<longrightarrow>
            (\<forall>c\<in>set (str_int status). 48 \<le> c \<and> c \<le> 57)
            \<and> foldl (\<lambda>a c. 10 * a + (int c - 48)) 0 (str_int status) = status)"
proof -
  note g = generate_image_sent [OF assms(1,2)]
  have one: "\<forall>body. txt = Inr body \<longrightarrow>
            generate_image U self e prompt reference_image res =
              \<lparr>result = Inr (False, PStr ([65, 80, 73, 0x8BF7, 0x6C42, 0x5931, 0x8D25, 58, 32]
                                          @ str_int status @ [32, 45, 32] @ body)),
               sent = [req], written = []\<rparr>"
  proof (intro allI impI)
    fix body
    assume "txt = Inr body"
    with assms(3) have "post e req = PostReturns (Response status (Inr body) js)" by simp
    from guarded_post_not_200 [OF this assms(4)]
    show "generate_image U self e prompt reference_image res =
              \<lparr>result = Inr (False, PStr ([65, 80, 73, 0x8BF7, 0x6C42, 0x5931, 0x8D25, 58, 32]
                                          @ str_int status @ [32, 45, 32] @ body)),
               sent = [req], written = []\<rparr>"
      unfolding g by (simp add: request_failed_text)
  qed
  have two: "\<forall>ex. txt = Inl ex \<and> is_exception ex \<longrightarrow>
            generate_image U self e prompt reference_image res =
              \<lparr>result = Inr (False, PStr ([65, 80, 73, 0x8BF7, 0x6C42, 0x5F02, 0x5E38, 58, 32]
                                          @ str_exn ex)),
               sent = [req], written = []\<rparr>"
  proof (intro allI impI)
    fix ex
    assume h: "txt = Inl ex \<and> is_exception ex"
    with assms(3) have "post e req = PostReturns (Response status (Inl ex) js)" by simp
    from guarded_post_text_raises [OF this assms(4)] h
    show "generate_image U self e prompt reference_image res =
              \<lparr>result = Inr (False, PStr ([65, 80, 73, 0x8BF7, 0x6C42, 0x5F02, 0x5E38, 58, 32]
                                          @ str_exn ex)),
               sent = [req], written = []\<rparr>"
      unfolding g by (simp add: request_exception_text)
  qed
  have three: "\<forall>ex. txt = Inl ex \<and> \<not> is_exception ex \<longrightarrow>
            generate_image U self e prompt reference_image res =
              \<lparr>result = Inl ex, sent = [req], written = []\<rparr>"
  proof (intro allI impI)
    fix ex
    assume h: "txt = Inl ex \<and> \<not> is_exception ex"
    with assms(3) have "post e req = PostReturns (Response status (Inl ex) js)" by simp
    from guarded_post_text_escapes [OF this assms(4)] h
    show "generate_image U self e prompt reference_image res =
              \<lparr>result = Inl ex, sent = [req], written = []\<rparr>"
      unfolding g by simp
  qed
  have four: "0 \<le> status \<longrightarrow>
            (\<forall>c\<in>set (str_int status). 48 \<le> c \<and> c \<le> 57)
            \<and> foldl (\<lambda>a c. 10 * a + (int c - 48)) 0 (str_int status) = status"
    using str_int_decimal by blast
  from one two three four show ?thesis by (intro conjI)
qed

theorem non_2xx_failure_carries_status_and_body_witness:
  "generate_image sample_unicode (ApiClient_init [ascii ''key-1''] [] (ascii ''ep''))
       \<lparr>chosen = 0, path_exists = (\<lambda>p. False), read_file = (\<lambda>p. Inl (OtherError (ascii ''missing''))),
        b64encode = (\<lambda>b. b), b64decode = (\<lambda>t. Inr t), clock_ms = 0,
        write_file = (\<lambda>p d. None),
        post = (\<lambda>r. PostReturns (Response 500 (Inr (ascii ''server error''))
                                    (Inl (OtherError (ascii ''not JSON'')))))\<rparr>
       (ascii ''a selfie'') None (ascii ''1K'')
     = \<lparr>result = Inr (False, PStr ([65, 80, 73, 0x8BF7, 0x6C42, 0x5931, 0x8D25, 58, 32]
                                    @ ascii ''500 - server error'')),
        sent = [\<lparr>url = ascii ''https://ark.cn-beijing.volces.com/api/v3/images/generations'',
                 headers = [(ascii ''Content-Type'', ascii ''application/json''),
                            (ascii ''Authorization'', ascii ''Bearer key-1'')],
                 payload = [(ascii ''model'', PStr (ascii ''ep'')),
                            (ascii ''prompt'', PStr (ascii ''a selfie'')),
                            (ascii ''response_format'', PStr (ascii ''url'')),
                            (ascii ''watermark'', PBool False),
                            (ascii ''size'', PStr (ascii ''1K''))]\<rparr>],
        written = []\<rparr>"
proof -
  let ?self = "ApiClient_init [ascii ''key-1''] [] (ascii ''ep'')"
  let ?e = "\<lparr>chosen = 0, path_exists = (\<lambda>p. False), read_file = (\<lambda>p. Inl (OtherError (ascii ''missing''))),
        b64encode = (\<lambda>b. b), b64decode = (\<lambda>t. Inr t), clock_ms = 0,
        write_file = (\<lambda>p d. None),
        post = (\<lambda>r. PostReturns (Response 500 (Inr (ascii ''server error''))
                                    (Inl (OtherError (ascii ''not JSON'')))))\<rparr>"
  let ?req = "\<lparr>url = ascii ''https://ark.cn-beijing.volces.com/api/v3/images/generations'',
                 headers = [(ascii ''Content-Type'', ascii ''application/json''),
                            (ascii ''Authorization'', ascii ''Bearer key-1'')],
                 payload = [(ascii ''model'', PStr (ascii ''ep'')),
                            (ascii ''prompt'', PStr (ascii ''a selfie'')),
                            (ascii ''response_format'', PStr (ascii ''url'')),
                            (ascii ''watermark'', PBool False),
                            (ascii ''size'', PStr (ascii ''1K''))]\<rparr>"
  have m: "map_resolution sample_unicode (ascii ''1K'') (ascii ''ep'') = ascii ''1K''"
    using map_resolution_fixed_tokens(1) [OF sample_unicode_ok] .
  have req: "build_request sample_unicode ?self ?e (ascii ''a selfie'') None (ascii ''1K'') = Inr ?req"
    using m by (simp add: build_request_def Let_def reference_field_def ApiClient_init_def
                          rstrip_slash_def)
  have keys: "client_api_keys ?self \<noteq> []" by (simp add: ApiClient_init_def)
  have p: "post ?e ?req = PostReturns (Response 500 (Inr (ascii ''server error''))
                                         (Inl (OtherError (ascii ''not JSON''))))"
    by simp
  have st: "(500::int) \<noteq> 200" by simp
  from non_2xx_failure_carries_status_and_body [OF keys req p st]
  have "generate_image sample_unicode ?self ?e (ascii ''a selfie'') None (ascii ''1K'') =
              \<lparr>result = Inr (False, PStr ([65, 80, 73, 0x8BF7, 0x6C42, 0x5931, 0x8D25, 58, 32]
                                          @ str_int 500 @ [32, 45, 32] @ ascii ''server error'')),
               sent = [?req], written = []\<rparr>"
    by blast
  then show ?thesis unfolding str_int_500 by simp
qed

text \<open>
  C8 as stated, for every response with a status outside 200 to 299: the server answers
  500 and reading the body fails (the connection breaks before the body is complete).
  The call returns \<open>False\<close> with the text of that failure after the "request exception"
  prefix; the status 500 is nowhere in the result, and there is no body in it.
\<close>

theorem unreadable_body_loses_status:
  "result (generate_image sample_unicode (ApiClient_init [ascii ''key-1''] [] (ascii ''ep''))
       \<lparr>chosen = 0, path_exists = (\<lambda>p. False), read_file = (\<lambda>p. Inl (OtherError (ascii ''missing''))),
        b64encode = (\<lambda>b. b), b64decode = (\<lambda>t. Inr t), clock_ms = 0,
        write_file = (\<lambda>p d. None),
        post = (\<lambda>r. PostReturns (Response 500 (Inl (OtherError (ascii ''Response payload is not completed'')))
                                    (Inl (OtherError (ascii ''Response payload is not completed'')))))\<rparr>
       (ascii ''a selfie'') None (ascii ''1K''))
     = Inr (False, PStr ([65, 80, 73, 0x8BF7, 0x6C42, 0x5F02, 0x5E38, 58, 32]
                         @ ascii ''Response payload is not completed''))
   \<and> \<not> is_substring (ascii ''500'')
         ([65, 80, 73, 0x8BF7, 0x6C42, 0x5F02, 0x5E38, 58, 32]
          @ ascii ''Response payload is not completed'')"
proof -
  let ?self = "ApiClient_init [ascii ''key-1''] [] (ascii ''ep'')"
  let ?e = "\<lparr>chosen = 0, path_exists = (\<lambda>p. False), read_file = (\<lambda>p. Inl (OtherError (ascii ''missing''))),
        b64encode = (\<lambda>b. b), b64decode = (\<lambda>t. Inr t), clock_ms = 0,
        write_file = (\<lambda>p d. None),
        post = (\<lambda>r. PostReturns (Response 500 (Inl (OtherError (ascii ''Response payload is not completed'')))
                                    (Inl (OtherError (ascii ''Response payload is not completed'')))))\<rparr>"
  obtain req where req: "build_request sample_unicode ?self ?e (ascii ''a selfie'') None (ascii ''1K'') = Inr req"
    using build_request_no_reference by blast
  have keys: "client_api_keys ?self \<noteq> []" by (simp add: ApiClient_init_def)
  have p: "post ?e req = PostReturns (Response 500 (Inl (OtherError (ascii ''Response payload is not completed'')))
                                    (Inl (OtherError (ascii ''Response payload is not completed''))))"
    by simp
  have "guarded_post ?e req
      = ([], Inr (False, PStr (request_exception_prefix
                               @ str_exn (OtherError (ascii ''Response payload is not completed'')))))"
    by (rule guarded_post_text_raises [OF p]) simp_all
  then have a: "result (generate_image sample_unicode ?self ?e (ascii ''a selfie'') None (ascii ''1K''))
      = Inr (False, PStr ([65, 80, 73, 0x8BF7, 0x6C42, 0x5F02, 0x5E38, 58, 32]
                         @ ascii ''Response payload is not completed''))"
    unfolding generate_image_sent [OF keys req] by (simp add: request_exception_text)
  have b: "\<not> is_substring (ascii ''500'')
         ([65, 80, 73, 0x8BF7, 0x6C42, 0x5F02, 0x5E38, 58, 32]
          @ ascii ''Response payload is not completed'')"
    by (simp add: starts_with_def)
  from a b show ?thesis by (rule conjI)
qed



text \<open>
  The success path on the example of the specification: a 200 response whose JSON is
  \<open>{"data": [{"url": "http://x/y.png"}]}\<close> gives \<open>(True, "http://x/y.png")\<close>.
\<close>

lemma success_url_example:
  "handle_response e
     (Response 200 txt (Inr (PDict [(ascii ''data'', PList [PDict [(ascii ''url'', PStr (ascii ''http://x/y.png''))]])])))
     = ([], Inr (True, PStr (ascii ''http://x/y.png'')))"
  by (simp add: handle_response_def py_contains_def py_getitem_def py_iter_def)

end
